theory Spec2Isabelle
  imports Main "HOL-Library.Word" "HOL-Library.AList"
begin

section \<open>The values of the host language\<close>

text \<open>
  \<^verbatim>\<open>local-storage.ts\<close> is a class of six methods and a constructor over three services
  of the browser: \<^verbatim>\<open>JSON.parse\<close>, \<^verbatim>\<open>JSON.stringify\<close> and \<^verbatim>\<open>window.localStorage\<close>.
  The methods are translated line by line in the last section of the definitions; the
  services are modelled first, after ECMA-262 (the \<^verbatim>\<open>JSON\<close> object, \<^verbatim>\<open>ToString\<close>) and the
  Web Storage standard (\<^verbatim>\<open>Storage\<close>).

  A string of the language is a sequence of 16-bit code units.
\<close>

type_synonym code_unit = "16 word"
type_synonym jsstring = "code_unit list"

definition js :: "string \<Rightarrow> jsstring" where
  "js s = map of_char s"

text \<open>
  The code units that the grammar of JSON names.
\<close>

abbreviation c_quote :: code_unit where "c_quote \<equiv> 0x22"
abbreviation c_backslash :: code_unit where "c_backslash \<equiv> 0x5C"
abbreviation c_slash :: code_unit where "c_slash \<equiv> 0x2F"
abbreviation c_backspace :: code_unit where "c_backspace \<equiv> 0x08"
abbreviation c_tab :: code_unit where "c_tab \<equiv> 0x09"
abbreviation c_newline :: code_unit where "c_newline \<equiv> 0x0A"
abbreviation c_formfeed :: code_unit where "c_formfeed \<equiv> 0x0C"
abbreviation c_return :: code_unit where "c_return \<equiv> 0x0D"
abbreviation c_space :: code_unit where "c_space \<equiv> 0x20"
abbreviation c_lbracket :: code_unit where "c_lbracket \<equiv> 0x5B"
abbreviation c_rbracket :: code_unit where "c_rbracket \<equiv> 0x5D"
abbreviation c_lbrace :: code_unit where "c_lbrace \<equiv> 0x7B"
abbreviation c_rbrace :: code_unit where "c_rbrace \<equiv> 0x7D"
abbreviation c_comma :: code_unit where "c_comma \<equiv> 0x2C"
abbreviation c_colon :: code_unit where "c_colon \<equiv> 0x3A"
abbreviation c_minus :: code_unit where "c_minus \<equiv> 0x2D"
abbreviation c_plus :: code_unit where "c_plus \<equiv> 0x2B"
abbreviation c_point :: code_unit where "c_point \<equiv> 0x2E"
abbreviation c_zero :: code_unit where "c_zero \<equiv> 0x30"
abbreviation c_b :: code_unit where "c_b \<equiv> 0x62"
abbreviation c_f :: code_unit where "c_f \<equiv> 0x66"
abbreviation c_n :: code_unit where "c_n \<equiv> 0x6E"
abbreviation c_r :: code_unit where "c_r \<equiv> 0x72"
abbreviation c_t :: code_unit where "c_t \<equiv> 0x74"
abbreviation c_u :: code_unit where "c_u \<equiv> 0x75"
abbreviation c_e :: code_unit where "c_e \<equiv> 0x65"
abbreviation c_E :: code_unit where "c_E \<equiv> 0x45"

text \<open>
  The values a caller can hand to the adapter. A number is a finite decimal
  \<open>m \<times> 10\<^sup>e\<close>, written \<open>Num m e\<close>; the rounding of a numeral to the nearest double, the
  values NaN and the infinities, and the sign of zero are outside this model. An object
  is the list of its own enumerable properties, in the order the text or the caller gave
  them (an engine lists integer-like keys first; deep equality does not look at the
  order). \<open>BigInt\<close> stands for the values that \<^verbatim>\<open>JSON.stringify\<close> refuses with a
  \<^verbatim>\<open>TypeError\<close>.
\<close>

datatype jsval =
    Undefined
  | Null
  | Bool bool
  | Num int int
  | Str jsstring
  | BigInt int
  | Arr "jsval list"
  | Obj "(jsstring \<times> jsval) list"

datatype error = TypeError | SyntaxError | QuotaExceededError | SecurityError

subsection \<open>Numbers as text\<close>

definition digit_char :: "nat \<Rightarrow> code_unit" where
  "digit_char d = of_nat (48 + d)"

function decimal_digits :: "nat \<Rightarrow> jsstring" where
  "decimal_digits n =
     (if n < 10 then [digit_char n]
      else decimal_digits (n div 10) @ [digit_char (n mod 10)])"
  by pat_completeness auto
termination
  by (relation "measure id") auto

declare decimal_digits.simps [simp del]

text \<open>
  The decimal with the fewest digits: the mantissa of a number other than zero is not a
  multiple of ten, and zero is \<open>(0, 0)\<close>.
\<close>

function canon :: "int \<Rightarrow> int \<Rightarrow> int \<times> int" where
  "canon m e =
     (if m = 0 then (0, 0)
      else if m mod 10 = 0 then canon (m div 10) (e + 1)
      else (m, e))"
  by pat_completeness auto
termination
proof (relation "measure (\<lambda>(m, e). nat \<bar>m\<bar>)")
  show "wf (measure (\<lambda>(m, e). nat \<bar>m\<bar>))"
    by simp
next
  fix m e :: int
  assume "m \<noteq> 0" and "m mod 10 = 0"
  then have "\<bar>m div 10\<bar> < \<bar>m\<bar>"
    by (cases "m < 0") auto
  then show "((m div 10, e + 1), (m, e)) \<in> measure (\<lambda>(m, e). nat \<bar>m\<bar>)"
    by simp
qed

declare canon.simps [simp del]

definition canonical :: "int \<Rightarrow> int \<Rightarrow> bool" where
  "canonical m e \<longleftrightarrow> (m = 0 \<and> e = 0) \<or> (m \<noteq> 0 \<and> m mod 10 \<noteq> 0)"

text \<open>
  \<^verbatim>\<open>Number::toString\<close> (ECMA-262, radix 10): with \<open>s\<close> the \<open>k\<close> digits of the mantissa and
  \<open>n = k + e\<close> the position of the decimal point, the digits are padded with zeros, split
  by a point, prefixed with \<^verbatim>\<open>0.\<close> and zeros, or written in exponent notation.
\<close>

definition Number_toString :: "int \<Rightarrow> int \<Rightarrow> jsstring" where
  "Number_toString m0 e0 =
     (case canon m0 e0 of (m, e) \<Rightarrow>
        if m = 0 then js ''0''
        else
          let s = decimal_digits (nat \<bar>m\<bar>);
              k = int (length s);
              n = k + e;
              x = n - 1;
              ex = js ''e'' @ (if x < 0 then js ''-'' else js ''+'') @ decimal_digits (nat \<bar>x\<bar>)
          in (if m < 0 then js ''-'' else []) @
             (if k \<le> n \<and> n \<le> 21 then s @ replicate (nat (n - k)) (digit_char 0)
              else if 0 < n \<and> n \<le> 21 then take (nat n) s @ js ''.'' @ drop (nat n) s
              else if - 6 < n \<and> n \<le> 0 then js ''0.'' @ replicate (nat (- n)) (digit_char 0) @ s
              else if k = 1 then s @ ex
              else take 1 s @ js ''.'' @ drop 1 s @ ex))"

subsection \<open>\<^verbatim>\<open>ToString\<close>\<close>

text \<open>
  The conversion the host applies to the argument of \<^verbatim>\<open>JSON.parse\<close> and to the value
  handed to \<^verbatim>\<open>setItem\<close>. An array is joined with commas, \<^verbatim>\<open>undefined\<close> and \<^verbatim>\<open>null\<close>
  elements giving the empty string; a plain object is \<^verbatim>\<open>[object Object]\<close>.
\<close>

definition BigInt_toString :: "int \<Rightarrow> jsstring" where
  "BigInt_toString n = (if n < 0 then js ''-'' else []) @ decimal_digits (nat \<bar>n\<bar>)"

fun ToString :: "jsval \<Rightarrow> jsstring"
  and join_elements :: "jsval list \<Rightarrow> jsstring" where
  "ToString Undefined = js ''undefined''"
| "ToString Null = js ''null''"
| "ToString (Bool b) = (if b then js ''true'' else js ''false'')"
| "ToString (Num m e) = Number_toString m e"
| "ToString (Str s) = s"
| "ToString (BigInt n) = BigInt_toString n"
| "ToString (Arr vs) = join_elements vs"
| "ToString (Obj ps) = js ''[object Object]''"
| "join_elements [] = []"
| "join_elements [v] = (if v = Undefined \<or> v = Null then [] else ToString v)"
| "join_elements (v # w # vs) =
     (if v = Undefined \<or> v = Null then [] else ToString v) @ js '','' @ join_elements (w # vs)"

subsection \<open>\<^verbatim>\<open>JSON.stringify\<close>\<close>

definition hex_char :: "nat \<Rightarrow> code_unit" where
  "hex_char d = (if d < 10 then of_nat (48 + d) else of_nat (87 + d))"

definition UnicodeEscape :: "code_unit \<Rightarrow> jsstring" where
  "UnicodeEscape c =
     [c_backslash, c_u,
      hex_char (unat c div 4096), hex_char (unat c div 256 mod 16),
      hex_char (unat c div 16 mod 16), hex_char (unat c mod 16)]"

definition is_lead :: "code_unit \<Rightarrow> bool" where
  "is_lead c \<longleftrightarrow> 0xD800 \<le> unat c \<and> unat c \<le> 0xDBFF"

definition is_trail :: "code_unit \<Rightarrow> bool" where
  "is_trail c \<longleftrightarrow> 0xDC00 \<le> unat c \<and> unat c \<le> 0xDFFF"

text \<open>
  One code point of \<^verbatim>\<open>QuoteJSONString\<close>: the short escapes of the table, a
  \<^verbatim>\<open>\uXXXX\<close> escape for a control character and for a surrogate without its partner,
  the code unit itself otherwise.
\<close>

definition quote_unit :: "code_unit \<Rightarrow> jsstring" where
  "quote_unit c =
     (if c = c_backspace then [c_backslash, c_b]
      else if c = c_tab then [c_backslash, c_t]
      else if c = c_newline then [c_backslash, c_n]
      else if c = c_formfeed then [c_backslash, c_f]
      else if c = c_return then [c_backslash, c_r]
      else if c = c_quote then [c_backslash, c_quote]
      else if c = c_backslash then [c_backslash, c_backslash]
      else if unat c < 0x20 \<or> is_lead c \<or> is_trail c then UnicodeEscape c
      else [c])"

fun quote_units :: "jsstring \<Rightarrow> jsstring" where
  "quote_units [] = []"
| "quote_units [c] = quote_unit c"
| "quote_units (c # d # cs) =
     (if is_lead c \<and> is_trail d then c # d # quote_units cs
      else quote_unit c @ quote_units (d # cs))"

definition QuoteJSONString :: "jsstring \<Rightarrow> jsstring" where
  "QuoteJSONString s = [c_quote] @ quote_units s @ [c_quote]"

fun join_with :: "jsstring \<Rightarrow> jsstring list \<Rightarrow> jsstring" where
  "join_with sep [] = []"
| "join_with sep [p] = p"
| "join_with sep (p # q # ps) = p @ sep @ join_with sep (q # ps)"

text \<open>
  \<^verbatim>\<open>SerializeJSONProperty\<close> gives a text, nothing (for \<^verbatim>\<open>undefined\<close>), or raises. In an
  array \<^verbatim>\<open>undefined\<close> is written \<^verbatim>\<open>null\<close>; in an object a property whose value is
  \<^verbatim>\<open>undefined\<close> is left out. No gap is given, so the text has no white space.
\<close>

fun SerializeJSONProperty :: "jsval \<Rightarrow> error + jsstring option"
  and SerializeJSONArray :: "jsval list \<Rightarrow> error + jsstring list"
  and SerializeJSONObject :: "(jsstring \<times> jsval) list \<Rightarrow> error + jsstring list" where
  "SerializeJSONProperty Undefined = Inr None"
| "SerializeJSONProperty Null = Inr (Some (js ''null''))"
| "SerializeJSONProperty (Bool b) = Inr (Some (if b then js ''true'' else js ''false''))"
| "SerializeJSONProperty (Num m e) = Inr (Some (Number_toString m e))"
| "SerializeJSONProperty (Str s) = Inr (Some (QuoteJSONString s))"
| "SerializeJSONProperty (BigInt n) = Inl TypeError"
| "SerializeJSONProperty (Arr vs) =
     (case SerializeJSONArray vs of
        Inl err \<Rightarrow> Inl err
      | Inr parts \<Rightarrow> Inr (Some (js ''['' @ join_with (js '','') parts @ js '']'')))"
| "SerializeJSONProperty (Obj ps) =
     (case SerializeJSONObject ps of
        Inl err \<Rightarrow> Inl err
      | Inr parts \<Rightarrow> Inr (Some (js ''{'' @ join_with (js '','') parts @ js ''}'')))"
| "SerializeJSONArray [] = Inr []"
| "SerializeJSONArray (v # vs) =
     (case SerializeJSONProperty v of
        Inl err \<Rightarrow> Inl err
      | Inr p \<Rightarrow>
          (case SerializeJSONArray vs of
             Inl err \<Rightarrow> Inl err
           | Inr parts \<Rightarrow> Inr ((case p of None \<Rightarrow> js ''null'' | Some t \<Rightarrow> t) # parts)))"
| "SerializeJSONObject [] = Inr []"
| "SerializeJSONObject (kv # ps) =
     (case SerializeJSONProperty (snd kv) of
        Inl err \<Rightarrow> Inl err
      | Inr p \<Rightarrow>
          (case SerializeJSONObject ps of
             Inl err \<Rightarrow> Inl err
           | Inr parts \<Rightarrow>
               Inr (case p of
                      None \<Rightarrow> parts
                    | Some t \<Rightarrow> (QuoteJSONString (fst kv) @ js '':'' @ t) # parts)))"

definition JSON_stringify :: "jsval \<Rightarrow> error + jsval" where
  "JSON_stringify v =
     (case SerializeJSONProperty v of
        Inl err \<Rightarrow> Inl err
      | Inr None \<Rightarrow> Inr Undefined
      | Inr (Some t) \<Rightarrow> Inr (Str t))"

subsection \<open>\<^verbatim>\<open>JSON.parse\<close>: the tokens\<close>

definition is_ws :: "code_unit \<Rightarrow> bool" where
  "is_ws c \<longleftrightarrow> c = c_space \<or> c = c_tab \<or> c = c_newline \<or> c = c_return"

definition is_digit :: "code_unit \<Rightarrow> bool" where
  "is_digit c \<longleftrightarrow> 48 \<le> unat c \<and> unat c \<le> 57"

definition digit_val :: "code_unit \<Rightarrow> nat" where
  "digit_val c = unat c - 48"

definition digits_val :: "jsstring \<Rightarrow> nat" where
  "digits_val ds = foldl (\<lambda>a c. 10 * a + digit_val c) 0 ds"

definition hex_val :: "code_unit \<Rightarrow> nat option" where
  "hex_val c =
     (if 48 \<le> unat c \<and> unat c \<le> 57 then Some (unat c - 48)
      else if 97 \<le> unat c \<and> unat c \<le> 102 then Some (unat c - 87)
      else if 65 \<le> unat c \<and> unat c \<le> 70 then Some (unat c - 55)
      else None)"

text \<open>
  The escape sequence after a backslash: the code unit it stands for and the number of
  code units it takes.
\<close>

definition unescape :: "jsstring \<Rightarrow> (code_unit \<times> nat) option" where
  "unescape cs =
     (case cs of
        [] \<Rightarrow> None
      | x # r \<Rightarrow>
          if x = c_quote then Some (c_quote, 1)
          else if x = c_backslash then Some (c_backslash, 1)
          else if x = c_slash then Some (c_slash, 1)
          else if x = c_b then Some (c_backspace, 1)
          else if x = c_f then Some (c_formfeed, 1)
          else if x = c_n then Some (c_newline, 1)
          else if x = c_r then Some (c_return, 1)
          else if x = c_t then Some (c_tab, 1)
          else if x = c_u then
            (case r of
               h1 # h2 # h3 # h4 # r' \<Rightarrow>
                 (case (hex_val h1, hex_val h2, hex_val h3, hex_val h4) of
                    (Some a, Some b, Some c, Some d) \<Rightarrow>
                      Some (of_nat (4096 * a + 256 * b + 16 * c + d), 5)
                  | _ \<Rightarrow> None)
             | _ \<Rightarrow> None)
          else None)"

text \<open>
  The characters of a string after its opening quote: the string, and the number of code
  units read, the closing quote among them. A control character is refused.
\<close>

function lex_string :: "jsstring \<Rightarrow> (jsstring \<times> nat) option" where
  "lex_string [] = None"
| "lex_string (c # cs) =
     (if c = c_quote then Some ([], 1)
      else if c = c_backslash then
        (case unescape cs of
           None \<Rightarrow> None
         | Some (u, k) \<Rightarrow>
             (case lex_string (drop k cs) of
                None \<Rightarrow> None
              | Some (s, n) \<Rightarrow> Some (u # s, Suc k + n)))
      else if unat c < 0x20 then None
      else
        (case lex_string cs of
           None \<Rightarrow> None
         | Some (s, n) \<Rightarrow> Some (c # s, Suc n)))"
  by pat_completeness auto
termination
  by (relation "measure length") auto

text \<open>
  A number: an optional minus, the integer part (a single zero, or digits that do not
  start with zero), an optional fraction, an optional exponent. Each part is read from the
  front of the text and gives what it read and the text after it; a point or an exponent
  mark that no digit follows is an error.
\<close>

definition lex_digits :: "jsstring \<Rightarrow> jsstring \<times> jsstring" where
  "lex_digits s = (takeWhile is_digit s, dropWhile is_digit s)"

definition lex_int :: "jsstring \<Rightarrow> jsstring \<times> jsstring" where
  "lex_int s =
     (case s of
        [] \<Rightarrow> ([], [])
      | c # cs \<Rightarrow> if c = c_zero then ([c_zero], cs) else lex_digits s)"

definition lex_frac :: "jsstring \<Rightarrow> (jsstring \<times> jsstring) option" where
  "lex_frac s =
     (case s of
        [] \<Rightarrow> Some ([], [])
      | c # cs \<Rightarrow>
          if c = c_point then
            (case lex_digits cs of
               ([], r) \<Rightarrow> None
             | (fp, r) \<Rightarrow> Some (fp, r))
          else Some ([], s))"

definition lex_exp_sign :: "jsstring \<Rightarrow> bool \<times> jsstring" where
  "lex_exp_sign s =
     (case s of
        [] \<Rightarrow> (False, [])
      | c # cs \<Rightarrow>
          if c = c_minus then (True, cs)
          else if c = c_plus then (False, cs)
          else (False, s))"

definition lex_exp :: "jsstring \<Rightarrow> (int \<times> jsstring) option" where
  "lex_exp s =
     (case s of
        [] \<Rightarrow> Some (0, [])
      | c # cs \<Rightarrow>
          if c = c_e \<or> c = c_E then
            (case lex_exp_sign cs of
               (neg, t) \<Rightarrow>
                 (case lex_digits t of
                    ([], r) \<Rightarrow> None
                  | (ep, r) \<Rightarrow> Some ((if neg then - 1 else 1) * int (digits_val ep), r)))
          else Some (0, s))"

text \<open>
  The number read is the decimal in its canonical form, with the number of code units
  read.
\<close>

definition lex_number :: "jsstring \<Rightarrow> ((int \<times> int) \<times> nat) option" where
  "lex_number s =
     (case (case s of
              [] \<Rightarrow> (False, [])
            | c # cs \<Rightarrow> if c = c_minus then (True, cs) else (False, s)) of
        (neg, s1) \<Rightarrow>
          (case lex_int s1 of
             ([], s2) \<Rightarrow> None
           | (ip, s2) \<Rightarrow>
               (case lex_frac s2 of
                  None \<Rightarrow> None
                | Some (fp, s3) \<Rightarrow>
                    (case lex_exp s3 of
                       None \<Rightarrow> None
                     | Some (x, s4) \<Rightarrow>
                         Some (canon ((if neg then - 1 else 1) * int (digits_val (ip @ fp)))
                                     (x - int (length fp)),
                               length s - length s4)))))"

text \<open>
  The text after a number cannot continue it: it is empty, or starts with something
  other than a digit, a point or an exponent mark.
\<close>

definition number_stop :: "jsstring \<Rightarrow> bool" where
  "number_stop r \<longleftrightarrow>
     r = [] \<or> (\<not> is_digit (hd r) \<and> hd r \<noteq> c_point \<and> hd r \<noteq> c_e \<and> hd r \<noteq> c_E)"

datatype token =
    LBracket | RBracket | LBrace | RBrace | Comma | Colon
  | TString jsstring | TNumber int int | TTrue | TFalse | TNull
  | TBad

text \<open>
  The tokens of a text. White space (space, tab, line feed, carriage return) separates
  tokens; anything that is no token ends the list with \<open>TBad\<close>.
\<close>

function tokenize :: "jsstring \<Rightarrow> token list" where
  "tokenize [] = []"
| "tokenize (c # cs) =
     (if is_ws c then tokenize cs
      else if c = c_lbracket then LBracket # tokenize cs
      else if c = c_rbracket then RBracket # tokenize cs
      else if c = c_lbrace then LBrace # tokenize cs
      else if c = c_rbrace then RBrace # tokenize cs
      else if c = c_comma then Comma # tokenize cs
      else if c = c_colon then Colon # tokenize cs
      else if c = c_quote then
        (case lex_string cs of
           None \<Rightarrow> [TBad]
         | Some (s, n) \<Rightarrow> TString s # tokenize (drop n cs))
      else if c = c_minus \<or> is_digit c then
        (case lex_number (c # cs) of
           None \<Rightarrow> [TBad]
         | Some ((m, e), n) \<Rightarrow> TNumber m e # tokenize (drop (n - 1) cs))
      else if take 4 (c # cs) = js ''true'' then TTrue # tokenize (drop 3 cs)
      else if take 5 (c # cs) = js ''false'' then TFalse # tokenize (drop 4 cs)
      else if take 4 (c # cs) = js ''null'' then TNull # tokenize (drop 3 cs)
      else [TBad])"
  by pat_completeness auto
termination
  by (relation "measure length") auto

subsection \<open>\<^verbatim>\<open>JSON.parse\<close>: the values\<close>

text \<open>
  The grammar is read by a machine with a stack of the arrays and objects that are still
  open. A frame holds the elements or properties read so far, and, while the value of a
  property is being read, its key. A property is defined as \<^verbatim>\<open>CreateDataProperty\<close> does:
  a key that is already there keeps its place and takes the new value.
\<close>

datatype frame =
    ArrayFrame "jsval list"
  | ObjectFrame "(jsstring \<times> jsval) list"
  | PropertyFrame "(jsstring \<times> jsval) list" jsstring

datatype mode =
    NeedValue
  | NeedFirst
  | NeedNext
  | NeedFirstKey
  | NeedKey
  | NeedColon
  | Finished jsval
  | Failed

type_synonym parser = "mode \<times> frame list"

definition deliver :: "jsval \<Rightarrow> frame list \<Rightarrow> parser" where
  "deliver v st =
     (case st of
        [] \<Rightarrow> (Finished v, [])
      | ArrayFrame vs # st' \<Rightarrow> (NeedNext, ArrayFrame (vs @ [v]) # st')
      | PropertyFrame ps k # st' \<Rightarrow> (NeedNext, ObjectFrame (AList.update k v ps) # st')
      | ObjectFrame ps # st' \<Rightarrow> (Failed, st))"

definition begin_value :: "token \<Rightarrow> frame list \<Rightarrow> parser" where
  "begin_value t st =
     (case t of
        LBracket \<Rightarrow> (NeedFirst, ArrayFrame [] # st)
      | LBrace \<Rightarrow> (NeedFirstKey, ObjectFrame [] # st)
      | TString s \<Rightarrow> deliver (Str s) st
      | TNumber m e \<Rightarrow> deliver (Num m e) st
      | TTrue \<Rightarrow> deliver (Bool True) st
      | TFalse \<Rightarrow> deliver (Bool False) st
      | TNull \<Rightarrow> deliver Null st
      | _ \<Rightarrow> (Failed, st))"

definition begin_key :: "token \<Rightarrow> frame list \<Rightarrow> parser" where
  "begin_key t st =
     (case (t, st) of
        (TString k, ObjectFrame ps # st') \<Rightarrow> (NeedColon, PropertyFrame ps k # st')
      | _ \<Rightarrow> (Failed, st))"

definition close_array :: "frame list \<Rightarrow> parser" where
  "close_array st =
     (case st of
        ArrayFrame vs # st' \<Rightarrow> deliver (Arr vs) st'
      | _ \<Rightarrow> (Failed, st))"

definition close_object :: "frame list \<Rightarrow> parser" where
  "close_object st =
     (case st of
        ObjectFrame ps # st' \<Rightarrow> deliver (Obj ps) st'
      | _ \<Rightarrow> (Failed, st))"

fun step :: "parser \<Rightarrow> token \<Rightarrow> parser" where
  "step (NeedValue, st) t = begin_value t st"
| "step (NeedFirst, st) t = (if t = RBracket then close_array st else begin_value t st)"
| "step (NeedNext, st) t =
     (case st of
        ArrayFrame vs # st' \<Rightarrow>
          if t = Comma then (NeedValue, st)
          else if t = RBracket then close_array st
          else (Failed, st)
      | ObjectFrame ps # st' \<Rightarrow>
          if t = Comma then (NeedKey, st)
          else if t = RBrace then close_object st
          else (Failed, st)
      | _ \<Rightarrow> (Failed, st))"
| "step (NeedFirstKey, st) t = (if t = RBrace then close_object st else begin_key t st)"
| "step (NeedKey, st) t = begin_key t st"
| "step (NeedColon, st) t = (if t = Colon then (NeedValue, st) else (Failed, st))"
| "step (Finished v, st) t = (Failed, st)"
| "step (Failed, st) t = (Failed, st)"

text \<open>
  \<^verbatim>\<open>JSON.parse(text)\<close> converts its argument to a string first, so that \<^verbatim>\<open>null\<close> is read
  as the text \<^verbatim>\<open>null\<close>. It raises a \<^verbatim>\<open>SyntaxError\<close> unless the text is exactly one value.
\<close>

definition JSON_parse :: "jsval \<Rightarrow> error + jsval" where
  "JSON_parse text =
     (case foldl step (NeedValue, []) (tokenize (ToString text)) of
        (Finished v, st) \<Rightarrow> Inr v
      | _ \<Rightarrow> Inl SyntaxError)"

subsection \<open>The values that JSON can carry\<close>

text \<open>
  A value of the JSON data model: \<^verbatim>\<open>null\<close>, a boolean, a number (in canonical form, as
  every number of the model that stands for a number of the language is), a string, an
  array of such values, or an object of such values whose keys are distinct. \<^verbatim>\<open>undefined\<close>
  and BigInt values are not among them, at any depth.
\<close>

fun json_value :: "jsval \<Rightarrow> bool"
  and json_values :: "jsval list \<Rightarrow> bool"
  and json_properties :: "(jsstring \<times> jsval) list \<Rightarrow> bool" where
  "json_value Undefined = False"
| "json_value Null = True"
| "json_value (Bool b) = True"
| "json_value (Num m e) = canonical m e"
| "json_value (Str s) = True"
| "json_value (BigInt n) = False"
| "json_value (Arr vs) = json_values vs"
| "json_value (Obj ps) = (distinct (map fst ps) \<and> json_properties ps)"
| "json_values [] = True"
| "json_values (v # vs) = (json_value v \<and> json_values vs)"
| "json_properties [] = True"
| "json_properties (kv # ps) = (json_value (snd kv) \<and> json_properties ps)"

subsection \<open>Reading a text as a value\<close>

text \<open>
  What the proofs below show of the parser: in every context where a value may start,
  reading the text \<open>t\<close> has the effect of delivering the value \<open>v\<close>; likewise for the
  elements of an array up to its closing bracket, and for the properties of an object up
  to its closing brace.
\<close>

definition reads_value :: "jsstring \<Rightarrow> jsval \<Rightarrow> bool" where
  "reads_value t v \<longleftrightarrow>
     (\<forall>m st r. (m = NeedValue \<or> m = NeedFirst) \<longrightarrow> number_stop r \<longrightarrow>
        foldl step (m, st) (tokenize (t @ r)) = foldl step (deliver v st) (tokenize r))"

definition reads_elements :: "jsstring list \<Rightarrow> jsval list \<Rightarrow> bool" where
  "reads_elements ts vs \<longleftrightarrow>
     (\<forall>m acc st r. (m = NeedValue \<or> m = NeedFirst) \<longrightarrow>
        foldl step (m, ArrayFrame acc # st) (tokenize (join_with [c_comma] ts @ c_rbracket # r))
          = foldl step (deliver (Arr (acc @ vs)) st) (tokenize r))"

definition reads_properties :: "jsstring list \<Rightarrow> (jsstring \<times> jsval) list \<Rightarrow> bool" where
  "reads_properties ts ps \<longleftrightarrow>
     (\<forall>m acc st r. (m = NeedKey \<or> m = NeedFirstKey) \<longrightarrow> distinct (map fst (acc @ ps)) \<longrightarrow>
        foldl step (m, ObjectFrame acc # st) (tokenize (join_with [c_comma] ts @ c_rbrace # r))
          = foldl step (deliver (Obj (acc @ ps)) st) (tokenize r))"

section \<open>The host store\<close>

text \<open>
  \<^verbatim>\<open>window.localStorage\<close> after the Web Storage standard: a list of entries, keys and
  values both strings, and a budget. \<^verbatim>\<open>getItem\<close> gives \<^verbatim>\<open>null\<close> for a key that is not
  there; \<^verbatim>\<open>setItem\<close> converts the value to a string, and raises
  \<^verbatim>\<open>QuotaExceededError\<close>, leaving the entries as they were, when the new value does not
  fit. Reading the attribute \<^verbatim>\<open>localStorage\<close> itself raises when the user agent refuses
  access to the store.
\<close>

record Storage =
  entries :: "(jsstring \<times> jsstring) list"
  quota :: nat

record window =
  refusal :: "error option"
  area :: Storage

definition localStorage :: "window \<Rightarrow> error + Storage" where
  "localStorage w = (case refusal w of Some err \<Rightarrow> Inl err | None \<Rightarrow> Inr (area w))"

definition used :: "(jsstring \<times> jsstring) list \<Rightarrow> nat" where
  "used es = sum_list (map (\<lambda>kv. length (fst kv) + length (snd kv)) es)"

definition Storage_getItem :: "Storage \<Rightarrow> jsstring \<Rightarrow> jsval" where
  "Storage_getItem st key = (case map_of (entries st) key of None \<Rightarrow> Null | Some s \<Rightarrow> Str s)"

definition Storage_setItem :: "Storage \<Rightarrow> jsstring \<Rightarrow> jsval \<Rightarrow> error option \<times> Storage" where
  "Storage_setItem st key v =
     (let es = AList.update key (ToString v) (entries st)
      in if used es \<le> quota st then (None, st\<lparr>entries := es\<rparr>)
         else (Some QuotaExceededError, st))"

definition Storage_removeItem :: "Storage \<Rightarrow> jsstring \<Rightarrow> Storage" where
  "Storage_removeItem st key = st\<lparr>entries := AList.delete key (entries st)\<rparr>"

definition Storage_clear :: "Storage \<Rightarrow> Storage" where
  "Storage_clear st = st\<lparr>entries := []\<rparr>"

text \<open>
  The four host calls of the source, \<^verbatim>\<open>window.localStorage.getItem(key)\<close> and its
  siblings: what the call returns or raises, and the window after it.
\<close>

definition getItem :: "window \<Rightarrow> jsstring \<Rightarrow> (error + jsval) \<times> window" where
  "getItem w key =
     (case localStorage w of
        Inl err \<Rightarrow> (Inl err, w)
      | Inr st \<Rightarrow> (Inr (Storage_getItem st key), w))"

definition setItem :: "window \<Rightarrow> jsstring \<Rightarrow> jsval \<Rightarrow> (error + unit) \<times> window" where
  "setItem w key v =
     (case localStorage w of
        Inl err \<Rightarrow> (Inl err, w)
      | Inr st \<Rightarrow>
          (case Storage_setItem st key v of
             (Some err, st') \<Rightarrow> (Inl err, w\<lparr>area := st'\<rparr>)
           | (None, st') \<Rightarrow> (Inr (), w\<lparr>area := st'\<rparr>)))"

definition removeItem :: "window \<Rightarrow> jsstring \<Rightarrow> (error + unit) \<times> window" where
  "removeItem w key =
     (case localStorage w of
        Inl err \<Rightarrow> (Inl err, w)
      | Inr st \<Rightarrow> (Inr (), w\<lparr>area := Storage_removeItem st key\<rparr>))"

definition clearItems :: "window \<Rightarrow> (error + unit) \<times> window" where
  "clearItems w =
     (case localStorage w of
        Inl err \<Rightarrow> (Inl err, w)
      | Inr st \<Rightarrow> (Inr (), w\<lparr>area := Storage_clear st\<rparr>))"

section \<open>The class \<^verbatim>\<open>LocalStorage\<close>\<close>

text \<open>
  The class declares no field. An instance is what the constructor of the base class
  \<^verbatim>\<open>StorageEngine\<close> builds; that class is imported from \<^verbatim>\<open>./storage\<close>, so the outcome of
  \<^verbatim>\<open>super()\<close>, which is called without an argument, is a parameter here.
\<close>

datatype 'b LocalStorage = LocalStorage 'b

definition constructor :: "error + 'b \<Rightarrow> jsval \<Rightarrow> error + 'b LocalStorage" where
  "constructor super options =
     (case super of Inl err \<Rightarrow> Inl err | Inr b \<Rightarrow> Inr (LocalStorage b))"

text \<open>
  A promise, once its executor has run: resolved with a value or rejected with what was
  raised. An executor that raises outside its own \<^verbatim>\<open>try\<close> rejects the promise with what it
  raised.
\<close>

datatype promise = Resolved jsval | Rejected error

definition isArray :: "jsval \<Rightarrow> bool" where
  "isArray v = (case v of Arr vs \<Rightarrow> True | _ \<Rightarrow> False)"

text \<open>
  \<^verbatim>\<open>testParse\<close>: \<^verbatim>\<open>try { return JSON.parse(value) } catch (e) { return value }\<close>.
\<close>

definition testParse :: "'b LocalStorage \<Rightarrow> jsval \<Rightarrow> error + jsval" where
  "testParse this v =
     (case JSON_parse v of
        Inr parsedValue \<Rightarrow> Inr parsedValue
      | Inl err \<Rightarrow> Inr v)"

text \<open>
  \<^verbatim>\<open>testForArray\<close>: \<^verbatim>\<open>JSON.stringify(value)\<close> for an array, the value itself otherwise.
  The call is not inside a \<^verbatim>\<open>try\<close>.
\<close>

definition testForArray :: "'b LocalStorage \<Rightarrow> jsval \<Rightarrow> error + jsval" where
  "testForArray this v = (if isArray v then JSON_stringify v else Inr v)"

text \<open>
  \<^verbatim>\<open>get\<close>: the host call and \<^verbatim>\<open>testParse\<close> are inside the \<^verbatim>\<open>try\<close>; the promise resolves
  with the value \<^verbatim>\<open>testParse\<close> returns.
\<close>

definition get :: "'b LocalStorage \<Rightarrow> jsstring \<Rightarrow> window \<Rightarrow> promise \<times> window" where
  "get this key w =
     (case getItem w key of
        (Inl err, w') \<Rightarrow> (Rejected err, w')
      | (Inr raw, w') \<Rightarrow>
          (case testParse this raw of
             Inl err \<Rightarrow> (Rejected err, w')
           | Inr v \<Rightarrow> (Resolved v, w')))"

text \<open>
  \<^verbatim>\<open>set\<close>: \<^verbatim>\<open>testForArray\<close> runs first, in the executor and before the \<^verbatim>\<open>try\<close>; then the
  host call, inside the \<^verbatim>\<open>try\<close>. \<^verbatim>\<open>resolve()\<close> has no argument.
\<close>

definition set' :: "'b LocalStorage \<Rightarrow> jsstring \<Rightarrow> jsval \<Rightarrow> window \<Rightarrow> promise \<times> window" where
  "set' this key v w =
     (case testForArray this v of
        Inl err \<Rightarrow> (Rejected err, w)
      | Inr checkedValue \<Rightarrow>
          (case setItem w key checkedValue of
             (Inl err, w') \<Rightarrow> (Rejected err, w')
           | (Inr u, w') \<Rightarrow> (Resolved Undefined, w')))"

definition remove :: "'b LocalStorage \<Rightarrow> jsstring \<Rightarrow> window \<Rightarrow> promise \<times> window" where
  "remove this key w =
     (case removeItem w key of
        (Inl err, w') \<Rightarrow> (Rejected err, w')
      | (Inr u, w') \<Rightarrow> (Resolved Undefined, w'))"

definition clear :: "'b LocalStorage \<Rightarrow> window \<Rightarrow> promise \<times> window" where
  "clear this w =
     (case clearItems w of
        (Inl err, w') \<Rightarrow> (Rejected err, w')
      | (Inr u, w') \<Rightarrow> (Resolved Undefined, w'))"

section \<open>The parser reads what the serializer writes\<close>

subsection \<open>Strings\<close>

lemma unat_code_unit: "n < 65536 \<Longrightarrow> unat (of_nat n :: code_unit) = n"
  by (simp add: unat_of_nat)

lemma unat_digit_char: "d < 10 \<Longrightarrow> unat (digit_char d) = 48 + d"
  unfolding digit_char_def by (rule unat_code_unit) simp

lemma unat_hex_char: "d < 16 \<Longrightarrow> unat (hex_char d) = (if d < 10 then 48 + d else 87 + d)"
  unfolding hex_char_def by (simp add: unat_code_unit del: of_nat_add)

lemma hex_val_hex_char: "d < 16 \<Longrightarrow> hex_val (hex_char d) = Some d"
  by (simp add: hex_val_def unat_hex_char)

lemma unat_code_unit_less: "unat (c :: code_unit) < 65536"
  using unsigned_less [of c, where 'a = nat] by simp

lemma hex_digits_value:
  "4096 * ((n :: nat) div 4096) + 256 * (n div 256 mod 16)
     + 16 * (n div 16 mod 16) + n mod 16 = n"
proof -
  have a: "n = 16 * (n div 16) + n mod 16"
    by simp
  have b: "n div 16 = 16 * (n div 256) + n div 16 mod 16"
    using div_mult2_eq [of n 16 16] by simp
  have c: "n div 256 = 16 * (n div 4096) + n div 256 mod 16"
    using div_mult2_eq [of n 256 16] by simp
  from a b c show ?thesis
    by linarith
qed

lemma unescape_UnicodeEscape:
  "UnicodeEscape c = 0x5C # e \<Longrightarrow> unescape (e @ r) = Some (c, 5)"
proof -
  assume "UnicodeEscape c = 0x5C # e"
  then have e: "e = [0x75, hex_char (unat c div 4096), hex_char (unat c div 256 mod 16),
      hex_char (unat c div 16 mod 16), hex_char (unat c mod 16)]"
    by (simp add: UnicodeEscape_def)
  have "unat c div 4096 < 16"
    using unat_code_unit_less [of c] by simp
  then show ?thesis
    by (simp add: e unescape_def hex_val_hex_char hex_digits_value)
qed


lemma UnicodeEscape_shape: "\<exists>e. UnicodeEscape c = 0x5C # e \<and> length e = 5"
  by (simp add: UnicodeEscape_def)

lemma lex_string_UnicodeEscape:
  "lex_string (UnicodeEscape c @ r) =
     (case lex_string r of None \<Rightarrow> None | Some (s, n) \<Rightarrow> Some (c # s, 6 + n))"
proof -
  from UnicodeEscape_shape obtain e where e: "UnicodeEscape c = 0x5C # e" and l: "length e = 5"
    by blast
  from unescape_UnicodeEscape [OF e] l show ?thesis
    by (simp add: e split: option.splits)
qed

lemma lex_string_literal:
  "c \<noteq> 0x22 \<Longrightarrow> c \<noteq> 0x5C \<Longrightarrow> \<not> unat c < 0x20 \<Longrightarrow>
   lex_string (c # r) =
     (case lex_string r of None \<Rightarrow> None | Some (s, n) \<Rightarrow> Some (c # s, Suc n))"
  by simp

lemma lex_string_quote_unit:
  "lex_string (quote_unit c @ r) =
     (case lex_string r of
        None \<Rightarrow> None
      | Some (s, n) \<Rightarrow> Some (c # s, length (quote_unit c) + n))"
proof -
  consider "c = 0x08 \<or> c = 0x09 \<or> c = 0x0A \<or> c = 0x0C \<or> c = 0x0D \<or> c = 0x22 \<or> c = 0x5C"
    | "c \<noteq> 0x08" "c \<noteq> 0x09" "c \<noteq> 0x0A" "c \<noteq> 0x0C" "c \<noteq> 0x0D" "c \<noteq> 0x22" "c \<noteq> 0x5C"
      "unat c < 0x20 \<or> is_lead c \<or> is_trail c"
    | "c \<noteq> 0x08" "c \<noteq> 0x09" "c \<noteq> 0x0A" "c \<noteq> 0x0C" "c \<noteq> 0x0D" "c \<noteq> 0x22" "c \<noteq> 0x5C"
      "\<not> (unat c < 0x20 \<or> is_lead c \<or> is_trail c)"
    by blast
  then show ?thesis
  proof cases
    case 1
    then show ?thesis
      by (auto simp: quote_unit_def unescape_def split: option.splits)
  next
    case 2
    then have q: "quote_unit c = UnicodeEscape c"
      by (simp add: quote_unit_def)
    have l: "length (UnicodeEscape c) = 6"
      by (simp add: UnicodeEscape_def)
    show ?thesis
      by (simp only: q lex_string_UnicodeEscape l)
  next
    case 3
    then have "quote_unit c = [c]"
      by (simp add: quote_unit_def)
    with 3 show ?thesis
      by (simp split: option.splits)
  qed
qed

lemma surrogate_literal:
  assumes "is_lead c \<or> is_trail c"
  shows "c \<noteq> 0x22" and "c \<noteq> 0x5C" and "\<not> unat c < 0x20"
  using assms by (auto simp: is_lead_def is_trail_def)

lemma lex_string_quote_units:
  "lex_string (quote_units s @ 0x22 # r) = Some (s, Suc (length (quote_units s)))"
proof (induction s rule: quote_units.induct)
  case 1
  show ?case
    by simp
next
  case (2 c)
  show ?case
    by (simp add: lex_string_quote_unit del: lex_string.simps) simp
next
  case (3 c d cs)
  show ?case
  proof (cases "is_lead c \<and> is_trail d")
    case True
    with 3 surrogate_literal [of c] surrogate_literal [of d] show ?thesis
      by simp
  next
    case False
    with 3 show ?thesis
      by (auto simp add: lex_string_quote_unit simp del: lex_string.simps)
  qed
qed

lemma tokenize_QuoteJSONString: "tokenize (QuoteJSONString s @ r) = TString s # tokenize r"
  by (simp add: QuoteJSONString_def lex_string_quote_units is_ws_def)

lemma quote_unit_length: "1 \<le> length (quote_unit c)"
  by (simp add: quote_unit_def UnicodeEscape_def)

lemma quote_units_length: "length s \<le> length (quote_units s)"
proof (induction s rule: quote_units.induct)
  case (2 c)
  then show ?case
    using quote_unit_length [of c] by simp
next
  case (3 c d cs)
  then show ?case
    using quote_unit_length [of c] by auto
qed simp

lemma QuoteJSONString_neq: "QuoteJSONString s \<noteq> s"
proof
  assume "QuoteJSONString s = s"
  then have "length (QuoteJSONString s) = length s"
    by simp
  with quote_units_length [of s] show False
    by (simp add: QuoteJSONString_def)
qed

subsection \<open>Numbers\<close>

lemma is_digit_digit_char: "d < 10 \<Longrightarrow> is_digit (digit_char d)"
  by (simp add: is_digit_def unat_digit_char)

lemma digit_val_digit_char: "d < 10 \<Longrightarrow> digit_val (digit_char d) = d"
  by (simp add: digit_val_def unat_digit_char)

lemma digit_char_0: "digit_char 0 = 0x30"
  by (simp add: digit_char_def)

lemma digit_char_eq_0: "d < 10 \<Longrightarrow> digit_char d = 0x30 \<longleftrightarrow> d = 0"
proof
  assume d: "d < 10" and "digit_char d = 0x30"
  then have "unat (digit_char d) = unat (0x30 :: code_unit)"
    by simp
  with d show "d = 0"
    by (simp add: unat_digit_char)
qed (simp add: digit_char_0)

lemma decimal_digits_all: "list_all is_digit (decimal_digits n)"
  by (induction n rule: decimal_digits.induct)
     (subst decimal_digits.simps, simp add: is_digit_digit_char)

lemma decimal_digits_nonempty: "decimal_digits n \<noteq> []"
  by (subst decimal_digits.simps) simp

lemma hd_decimal_digits: "0 < n \<Longrightarrow> hd (decimal_digits n) \<noteq> 0x30"
proof (induction n rule: decimal_digits.induct)
  case (1 n)
  show ?case
  proof (cases "n < 10")
    case True
    with 1(2) show ?thesis
      by (subst decimal_digits.simps) (simp add: digit_char_eq_0)
  next
    case False
    with 1 have "hd (decimal_digits (n div 10)) \<noteq> 0x30"
      by simp
    with False show ?thesis
      by (subst decimal_digits.simps) (simp add: decimal_digits_nonempty)
  qed
qed

lemma digits_val_snoc: "digits_val (ds @ [c]) = 10 * digits_val ds + digit_val c"
  by (simp add: digits_val_def)

lemma digits_val_Nil: "digits_val [] = 0"
  by (simp add: digits_val_def)

lemma digits_val_append:
  "digits_val (a @ b) = digits_val a * 10 ^ length b + digits_val b"
proof (induction b rule: rev_induct)
  case Nil
  show ?case
    by (simp add: digits_val_Nil)
next
  case (snoc c b)
  have "digits_val (a @ b @ [c]) = 10 * digits_val (a @ b) + digit_val c"
    using digits_val_snoc [of "a @ b" c] by simp
  with snoc show ?case
    by (simp add: digits_val_snoc algebra_simps)
qed

lemma digits_val_decimal_digits: "digits_val (decimal_digits n) = n"
proof (induction n rule: decimal_digits.induct)
  case (1 n)
  show ?case
  proof (cases "n < 10")
    case True
    then show ?thesis
      by (subst decimal_digits.simps) (simp add: digits_val_def digit_val_digit_char)
  next
    case False
    with 1 show ?thesis
      by (subst decimal_digits.simps) (simp add: digits_val_snoc digit_val_digit_char)
  qed
qed

lemma digits_val_zeros: "digits_val (replicate j 0x30) = 0"
proof (induction j)
  case 0
  show ?case
    by (simp add: digits_val_Nil)
next
  case (Suc j)
  have "replicate (Suc j) (0x30 :: code_unit) = replicate j 0x30 @ [0x30]"
    by (simp add: replicate_append_same)
  then have "digits_val (replicate (Suc j) 0x30)
      = 10 * digits_val (replicate j 0x30) + digit_val 0x30"
    by (simp only: digits_val_snoc)
  with Suc show ?case
    by (simp add: digit_val_def)
qed

lemma is_digit_0x30: "is_digit 0x30"
  by (simp add: is_digit_def)

lemma lex_digits_append:
  assumes "list_all is_digit ds" and "r = [] \<or> \<not> is_digit (hd r)"
  shows "lex_digits (ds @ r) = (ds, r)"
proof -
  from assms(2) have "takeWhile is_digit r = []" and "dropWhile is_digit r = r"
    by (cases r; auto)+
  moreover from assms(1) have "\<forall>x\<in>set ds. is_digit x"
    by (simp add: list_all_iff)
  ultimately show ?thesis
    by (simp add: lex_digits_def)
qed

lemma lex_int_zero: "lex_int (0x30 # r) = ([0x30], r)"
  by (simp add: lex_int_def)

lemma lex_int_digits:
  assumes "list_all is_digit ds" and "ds \<noteq> []" and "hd ds \<noteq> 0x30"
    and "r = [] \<or> \<not> is_digit (hd r)"
  shows "lex_int (ds @ r) = (ds, r)"
proof -
  from assms(2) obtain c cs where ds: "ds = c # cs"
    by (cases ds) auto
  with assms(3) have "lex_int (ds @ r) = lex_digits (ds @ r)"
    by (simp add: lex_int_def)
  with lex_digits_append [OF assms(1) assms(4)] show ?thesis
    by simp
qed

lemma lex_frac_none: "r = [] \<or> hd r \<noteq> 0x2E \<Longrightarrow> lex_frac r = Some ([], r)"
  by (cases r) (auto simp: lex_frac_def)

lemma lex_frac_some:
  assumes "list_all is_digit fp" and "fp \<noteq> []" and "r = [] \<or> \<not> is_digit (hd r)"
  shows "lex_frac (0x2E # fp @ r) = Some (fp, r)"
  using assms(2) lex_digits_append [OF assms(1) assms(3)]
  by (cases fp) (auto simp: lex_frac_def)

lemma lex_exp_none: "r = [] \<or> (hd r \<noteq> 0x65 \<and> hd r \<noteq> 0x45) \<Longrightarrow> lex_exp r = Some (0, r)"
  by (cases r) (auto simp: lex_exp_def)

lemma lex_exp_some:
  assumes "list_all is_digit ep" and "ep \<noteq> []" and "r = [] \<or> \<not> is_digit (hd r)"
  shows "lex_exp (0x65 # 0x2D # ep @ r) = Some (- int (digits_val ep), r)"
    and "lex_exp (0x65 # 0x2B # ep @ r) = Some (int (digits_val ep), r)"
  using assms(2) lex_digits_append [OF assms(1) assms(3)]
  by (cases ep; auto simp: lex_exp_def lex_exp_sign_def)+

lemma canon_canonical: "canonical m e \<Longrightarrow> canon m e = (m, e)"
  by (subst canon.simps) (auto simp: canonical_def)

lemma canon_times_10: "m \<noteq> 0 \<Longrightarrow> canon (m * 10) e = canon m (e + 1)"
  by (subst canon.simps) simp

lemma canon_pow: "m \<noteq> 0 \<Longrightarrow> canon (m * 10 ^ j) e = canon m (e + int j)"
proof (induction j arbitrary: e)
  case 0
  show ?case
    by simp
next
  case (Suc j)
  have "m * 10 ^ Suc j = (m * 10 ^ j) * 10"
    by simp
  then have "canon (m * 10 ^ Suc j) e = canon ((m * 10 ^ j) * 10) e"
    by (simp only:)
  also from Suc(2) have "\<dots> = canon (m * 10 ^ j) (e + 1)"
    by (intro canon_times_10) simp
  also from Suc have "\<dots> = canon m (e + 1 + int j)"
    by simp
  finally show ?case
    by (simp add: add.assoc)
qed

lemma not_digit_marks: "\<not> is_digit 0x2E" "\<not> is_digit 0x65" "\<not> is_digit 0x45" "\<not> is_digit 0x2D"
  by (simp_all add: is_digit_def)

lemma lex_number_parts:
  assumes ip: "list_all is_digit ip" "ip \<noteq> []" "ip = [0x30] \<or> hd ip \<noteq> 0x30"
    and fr: "(fr = [] \<and> fp = []) \<or> (fr = 0x2E # fp \<and> fp \<noteq> [] \<and> list_all is_digit fp)"
    and ex: "(ex = [] \<and> x = 0)
       \<or> (\<exists>ep. ep \<noteq> [] \<and> list_all is_digit ep
            \<and> ((ex = 0x65 # 0x2D # ep \<and> x = - int (digits_val ep))
               \<or> (ex = 0x65 # 0x2B # ep \<and> x = int (digits_val ep))))"
    and sg: "(sg = [] \<and> \<not> neg) \<or> (sg = [0x2D] \<and> neg)"
    and r: "number_stop r"
  shows "lex_number (sg @ ip @ fr @ ex @ r) =
     Some (canon ((if neg then - 1 else 1) * int (digits_val (ip @ fp))) (x - int (length fp)),
           length (sg @ ip @ fr @ ex))"
proof -
  have d0: "is_digit (hd ip)"
    using ip(1,2) by (cases ip) auto
  have b3: "ex @ r = [] \<or> (\<not> is_digit (hd (ex @ r)) \<and> hd (ex @ r) \<noteq> 0x2E)"
    using ex r by (auto simp: number_stop_def not_digit_marks)
  have b2: "fr @ ex @ r = [] \<or> \<not> is_digit (hd (fr @ ex @ r))"
    using fr b3 by (auto simp: not_digit_marks)
  have s1: "(case sg @ ip @ fr @ ex @ r of
              [] \<Rightarrow> (False, [])
            | c # cs \<Rightarrow> if c = 0x2D then (True, cs) else (False, sg @ ip @ fr @ ex @ r))
          = (neg, ip @ fr @ ex @ r)"
  proof (cases neg)
    case True
    with sg show ?thesis
      by auto
  next
    case False
    with sg have "sg = []"
      by auto
    moreover from ip(2) obtain c cs where "ip = c # cs"
      by (cases ip) auto
    moreover from this d0 have "c \<noteq> 0x2D"
      using not_digit_marks(4) by auto
    ultimately show ?thesis
      using False by simp
  qed
  have s2: "lex_int (ip @ fr @ ex @ r) = (ip, fr @ ex @ r)"
  proof (cases "ip = [0x30]")
    case True
    then show ?thesis
      by (simp add: lex_int_zero)
  next
    case False
    with ip(3) have "hd ip \<noteq> 0x30"
      by simp
    from lex_int_digits [OF ip(1) ip(2) this b2] show ?thesis .
  qed
  have s3: "lex_frac (fr @ ex @ r) = Some (fp, ex @ r)"
  proof (cases "fr = []")
    case True
    with fr have "fp = []"
      by auto
    with True b3 lex_frac_none [of "ex @ r"] show ?thesis
      by auto
  next
    case False
    with fr have f: "fr = 0x2E # fp" "fp \<noteq> []" "list_all is_digit fp"
      by auto
    from b3 have "ex @ r = [] \<or> \<not> is_digit (hd (ex @ r))"
      by auto
    from lex_frac_some [OF f(3) f(2) this] f(1) show ?thesis
      by simp
  qed
  have r': "r = [] \<or> \<not> is_digit (hd r)"
    using r by (auto simp: number_stop_def)
  have s4: "lex_exp (ex @ r) = Some (x, r)"
  proof (cases "ex = []")
    case True
    with ex have "x = 0"
      by auto
    with True r lex_exp_none [of r] show ?thesis
      by (auto simp: number_stop_def)
  next
    case False
    with ex obtain ep where e: "ep \<noteq> []" "list_all is_digit ep"
      "(ex = 0x65 # 0x2D # ep \<and> x = - int (digits_val ep))
               \<or> (ex = 0x65 # 0x2B # ep \<and> x = int (digits_val ep))"
      by auto
    from lex_exp_some [OF e(2) e(1) r'] e(3) show ?thesis
      by auto
  qed
  show ?thesis
    unfolding lex_number_def s1 prod.case s2
    using ip(2) by (cases ip) (simp_all add: s3 s4)
qed

lemma js_marks:
  "js ''0'' = [0x30]" "js ''.'' = [0x2E]" "js ''0.'' = [0x30, 0x2E]"
  "js ''e'' = [0x65]" "js ''-'' = [0x2D]" "js ''+'' = [0x2B]"
  by (simp_all add: js_def)

lemma list_all_zeros: "list_all is_digit (replicate j 0x30)"
  by (simp add: list_all_iff is_digit_0x30)

lemma exponent_text:
  fixes x :: int
  defines "ex \<equiv> js ''e'' @ (if x < 0 then js ''-'' else js ''+'') @ decimal_digits (nat \<bar>x\<bar>)"
  shows "\<exists>ep. ep \<noteq> [] \<and> list_all is_digit ep
            \<and> ((ex = 0x65 # 0x2D # ep \<and> x = - int (digits_val ep))
               \<or> (ex = 0x65 # 0x2B # ep \<and> x = int (digits_val ep)))"
  unfolding ex_def
  by (rule exI [of _ "decimal_digits (nat \<bar>x\<bar>)"])
     (simp add: js_marks decimal_digits_nonempty decimal_digits_all digits_val_decimal_digits)

lemma lex_number_Number_toString:
  assumes c: "canonical m e" and r: "number_stop r"
  shows "lex_number (Number_toString m e @ r) = Some ((m, e), length (Number_toString m e))"
proof (cases "m = 0")
  case True
  with c have e: "e = 0"
    by (simp add: canonical_def)
  have t: "Number_toString m e = [0x30]"
    using True c by (simp add: Number_toString_def canon_canonical js_marks)
  have "lex_number ([] @ [0x30] @ [] @ [] @ r) =
     Some (canon ((if False then - 1 else 1) * int (digits_val ([0x30] @ []))) (0 - int (length ([] :: jsstring))),
           length ([] @ [0x30 :: code_unit] @ [] @ []))"
    by (rule lex_number_parts) (simp_all add: r is_digit_0x30)
  moreover have "digits_val [0x30] = 0"
    by (simp add: digits_val_def digit_val_def)
  ultimately show ?thesis
    unfolding t using True e by (simp add: canon.simps)
next
  case False
  define s where "s = decimal_digits (nat \<bar>m\<bar>)"
  define k where "k = int (length s)"
  define n where "n = k + e"
  define x where "x = n - 1"
  define ex where "ex = js ''e'' @ (if x < 0 then js ''-'' else js ''+'') @ decimal_digits (nat \<bar>x\<bar>)"
  define sg :: jsstring where "sg = (if m < 0 then [0x2D] else [])"
  define body where "body =
     (if k \<le> n \<and> n \<le> 21 then s @ replicate (nat (n - k)) 0x30
      else if 0 < n \<and> n \<le> 21 then take (nat n) s @ [0x2E] @ drop (nat n) s
      else if - 6 < n \<and> n \<le> 0 then [0x30, 0x2E] @ replicate (nat (- n)) 0x30 @ s
      else if k = 1 then s @ ex
      else take 1 s @ [0x2E] @ drop 1 s @ ex)"
  have cm: "canon m e = (m, e)"
    using c by (rule canon_canonical)
  have t: "Number_toString m e = sg @ body"
    unfolding sg_def body_def ex_def x_def n_def k_def s_def
    by (simp only: Number_toString_def cm prod.case Let_def if_not_P [OF False]
        js_marks digit_char_0 append_Cons append_Nil)
  have sd: "list_all is_digit s" and sn: "s \<noteq> []" and sh: "hd s \<noteq> 0x30"
    and sv: "digits_val s = nat \<bar>m\<bar>"
    using False
    by (simp_all add: s_def decimal_digits_all decimal_digits_nonempty hd_decimal_digits
        digits_val_decimal_digits)
  have k1: "1 \<le> k"
    using sn by (cases s) (simp_all add: k_def)
  have sgn: "(sg = [] \<and> \<not> m < 0) \<or> (sg = [0x2D] \<and> m < 0)"
    by (simp add: sg_def)
  have mv: "(if m < 0 then - 1 else 1) * int (nat \<bar>m\<bar>) = m"
    by simp
  have exs: "\<exists>ep. ep \<noteq> [] \<and> list_all is_digit ep
            \<and> ((ex = 0x65 # 0x2D # ep \<and> x = - int (digits_val ep))
               \<or> (ex = 0x65 # 0x2B # ep \<and> x = int (digits_val ep)))"
    unfolding ex_def by (rule exponent_text)
  have goal: "lex_number (sg @ body @ r) = Some ((m, e), length (sg @ body))"
  proof -
    consider (pad) "k \<le> n" "n \<le> 21"
      | (point) "n < k" "0 < n" "n \<le> 21"
      | (small) "- 6 < n" "n \<le> 0"
      | (exp1) "\<not> (k \<le> n \<and> n \<le> 21)" "\<not> (0 < n \<and> n \<le> 21)" "\<not> (- 6 < n \<and> n \<le> 0)" "k = 1"
      | (expn) "\<not> (k \<le> n \<and> n \<le> 21)" "\<not> (0 < n \<and> n \<le> 21)" "\<not> (- 6 < n \<and> n \<le> 0)" "k \<noteq> 1"
      by linarith
    then show ?thesis
    proof cases
      case pad
      define j where "j = nat (n - k)"
      have b: "body = s @ replicate j 0x30"
        using pad by (simp add: body_def j_def)
      have je: "int j = e"
        using pad by (simp add: j_def n_def)
      have "lex_number (sg @ (s @ replicate j 0x30) @ [] @ [] @ r) =
         Some (canon ((if m < 0 then - 1 else 1) * int (digits_val ((s @ replicate j 0x30) @ [])))
                 (0 - int (length ([] :: jsstring))),
               length (sg @ (s @ replicate j 0x30) @ [] @ []))"
        using sd sn sh sgn r
        by (intro lex_number_parts) (simp_all add: list_all_zeros)
      moreover have "(if m < 0 then - 1 else 1) * int (digits_val (s @ replicate j 0x30))
          = m * 10 ^ j"
        using mv by (simp add: digits_val_append digits_val_zeros sv)
      moreover have "canon (m * 10 ^ j) 0 = (m, e)"
        using False cm by (simp add: canon_pow je)
      ultimately show ?thesis
        by (simp add: b)
    next
      case point
      define j where "j = nat n"
      have b: "body = take j s @ [0x2E] @ drop j s"
        using point by (simp add: body_def j_def)
      have jl: "0 < j" "j < length s"
        using point by (simp_all add: j_def k_def)
      have td: "list_all is_digit (take j s)" "list_all is_digit (drop j s)"
        using sd by (simp_all add: list_all_iff) (meson in_set_takeD, meson in_set_dropD)
      have tn: "take j s \<noteq> []" "drop j s \<noteq> []" "hd (take j s) \<noteq> 0x30"
        using jl sn sh by simp_all
      have "lex_number (sg @ take j s @ (0x2E # drop j s) @ [] @ r) =
         Some (canon ((if m < 0 then - 1 else 1) * int (digits_val (take j s @ drop j s)))
                 (0 - int (length (drop j s))),
               length (sg @ take j s @ (0x2E # drop j s) @ []))"
        using td tn sgn r
        by (intro lex_number_parts) simp_all
      moreover have "0 - int (length (drop j s)) = e"
        using jl point by (simp add: j_def n_def k_def)
      ultimately show ?thesis
        using mv cm by (simp add: b sv)
    next
      case small
      define j where "j = nat (- n)"
      have b: "body = [0x30] @ (0x2E # replicate j 0x30 @ s) @ [] @ []"
        using small k1 by (simp add: body_def j_def)
      have "lex_number (sg @ [0x30] @ (0x2E # replicate j 0x30 @ s) @ [] @ r) =
         Some (canon ((if m < 0 then - 1 else 1) * int (digits_val ([0x30] @ replicate j 0x30 @ s)))
                 (0 - int (length (replicate j (0x30 :: code_unit) @ s))),
               length (sg @ [0x30] @ (0x2E # replicate j 0x30 @ s) @ []))"
        using sd sn sgn r
        by (intro lex_number_parts) (simp_all add: list_all_zeros is_digit_0x30)
      moreover have "digits_val ([0x30] @ replicate j 0x30 @ s) = nat \<bar>m\<bar>"
        using digits_val_append [of "replicate (Suc j) 0x30" s] digits_val_zeros [of "Suc j"]
        by (simp add: sv)
      moreover have "0 - int (length (replicate j (0x30 :: code_unit) @ s)) = e"
        using small by (simp add: j_def n_def k_def)
      ultimately show ?thesis
        using mv cm by (simp add: b)
    next
      case exp1
      have b: "body = s @ [] @ ex"
        by (simp only: body_def if_not_P [OF exp1(1)] if_not_P [OF exp1(2)]
            if_not_P [OF exp1(3)] if_P [OF exp1(4)] append_Nil)
      have "lex_number (sg @ s @ [] @ ex @ r) =
         Some (canon ((if m < 0 then - 1 else 1) * int (digits_val (s @ [])))
                 (x - int (length ([] :: jsstring))),
               length (sg @ s @ [] @ ex))"
        using sd sn sh sgn r exs
        by (intro lex_number_parts) simp_all
      moreover have "x = e"
        using exp1 by (simp add: x_def n_def)
      ultimately show ?thesis
        using mv cm by (simp add: b sv)
    next
      case expn
      have b: "body = take 1 s @ (0x2E # drop 1 s) @ ex"
        by (simp only: body_def if_not_P [OF expn(1)] if_not_P [OF expn(2)]
            if_not_P [OF expn(3)] if_not_P [OF expn(4)] append_Cons append_Nil)
      have kl: "1 < length s"
        using expn k1 by (simp add: k_def)
      have td: "list_all is_digit (take 1 s)" "list_all is_digit (drop 1 s)"
        using sd by (simp_all add: list_all_iff) (meson in_set_takeD, meson in_set_dropD)
      have tn: "take 1 s \<noteq> []" "drop 1 s \<noteq> []" "hd (take 1 s) \<noteq> 0x30"
        using kl sn sh by simp_all
      have "lex_number (sg @ take 1 s @ (0x2E # drop 1 s) @ ex @ r) =
         Some (canon ((if m < 0 then - 1 else 1) * int (digits_val (take 1 s @ drop 1 s)))
                 (x - int (length (drop 1 s))),
               length (sg @ take 1 s @ (0x2E # drop 1 s) @ ex))"
        using td tn sgn r exs
        by (intro lex_number_parts) simp_all
      moreover have "x - int (length (drop 1 s)) = e"
        using kl by (simp add: x_def n_def k_def)
      ultimately show ?thesis
        using mv cm by (simp add: b sv)
    qed
  qed
  then show ?thesis
    by (simp add: t)
qed

subsection \<open>Tokens\<close>

lemma number_stop_Nil: "number_stop []"
  by (simp add: number_stop_def)

lemma lex_number_start:
  assumes "lex_number s = Some x"
  shows "\<exists>c cs. s = c # cs \<and> (c = 0x2D \<or> is_digit c)"
proof (cases s)
  case Nil
  with assms show ?thesis
    by (simp add: lex_number_def lex_int_def)
next
  case (Cons c cs)
  show ?thesis
  proof (cases "c = 0x2D \<or> c = 0x30")
    case True
    with Cons show ?thesis
      by (auto simp: is_digit_0x30)
  next
    case False
    with assms Cons have "takeWhile is_digit (c # cs) \<noteq> []"
      by (auto simp: lex_number_def lex_int_def lex_digits_def split: if_splits)
    then have "is_digit c"
      by (auto split: if_splits)
    with Cons show ?thesis
      by simp
  qed
qed

lemma tokenize_number:
  assumes "lex_number s = Some ((m, e), n)" and "0 < n"
  shows "tokenize s = TNumber m e # tokenize (drop n s)"
proof -
  from lex_number_start [OF assms(1)] obtain c cs where
    s: "s = c # cs" and c: "c = 0x2D \<or> is_digit c"
    by blast
  from c have "\<not> is_ws c" "c \<noteq> 0x5B" "c \<noteq> 0x5D" "c \<noteq> 0x7B" "c \<noteq> 0x7D"
    "c \<noteq> 0x2C" "c \<noteq> 0x3A" "c \<noteq> 0x22"
    by (auto simp: is_ws_def is_digit_def)
  with c assms show ?thesis
    by (simp add: s drop_Cons')
qed

lemma Number_toString_nonempty:
  assumes "canonical m e"
  shows "Number_toString m e \<noteq> []"
proof
  assume "Number_toString m e = []"
  with lex_number_Number_toString [OF assms number_stop_Nil]
  have "lex_number [] = Some ((m, e), 0)"
    by simp
  then show False
    by (simp add: lex_number_def lex_int_def)
qed

lemma tokenize_Number_toString:
  assumes "canonical m e" and "number_stop r"
  shows "tokenize (Number_toString m e @ r) = TNumber m e # tokenize r"
  using tokenize_number [OF lex_number_Number_toString [OF assms]]
    Number_toString_nonempty [OF assms(1)]
  by simp

lemma tokenize_marks:
  "tokenize (0x5B # r) = LBracket # tokenize r"
  "tokenize (0x5D # r) = RBracket # tokenize r"
  "tokenize (0x7B # r) = LBrace # tokenize r"
  "tokenize (0x7D # r) = RBrace # tokenize r"
  "tokenize (0x2C # r) = Comma # tokenize r"
  "tokenize (0x3A # r) = Colon # tokenize r"
  by (simp_all add: is_ws_def)

lemma tokenize_words:
  "tokenize (js ''null'' @ r) = TNull # tokenize r"
  "tokenize (js ''true'' @ r) = TTrue # tokenize r"
  "tokenize (js ''false'' @ r) = TFalse # tokenize r"
  by (simp_all add: js_def is_ws_def is_digit_def)

lemma number_stop_marks: "number_stop (0x5D # r)" "number_stop (0x7D # r)" "number_stop (0x2C # r)"
  by (simp_all add: number_stop_def is_digit_def)

subsection \<open>Values\<close>

lemma js_punct:
  "js ''['' = [0x5B]" "js '']'' = [0x5D]" "js ''{'' = [0x7B]" "js ''}'' = [0x7D]"
  "js '','' = [0x2C]" "js '':'' = [0x3A]"
  by (simp_all add: js_def)

declare tokenize.simps [simp del]

lemma step_scalar:
  assumes "m = NeedValue \<or> m = NeedFirst"
  shows "step (m, st) TNull = deliver Null st"
    and "step (m, st) TTrue = deliver (Bool True) st"
    and "step (m, st) TFalse = deliver (Bool False) st"
    and "step (m, st) (TNumber a b) = deliver (Num a b) st"
    and "step (m, st) (TString s) = deliver (Str s) st"
    and "step (m, st) LBracket = (NeedFirst, ArrayFrame [] # st)"
    and "step (m, st) LBrace = (NeedFirstKey, ObjectFrame [] # st)"
  using assms by (auto simp: begin_value_def)

lemma reads_valueD:
  assumes "reads_value t v" and "m = NeedValue \<or> m = NeedFirst" and "number_stop r"
  shows "foldl step (m, st) (tokenize (t @ r)) = foldl step (deliver v st) (tokenize r)"
  using assms unfolding reads_value_def by blast

lemma reads_scalars:
  "reads_value (js ''null'') Null"
  "reads_value (js ''true'') (Bool True)"
  "reads_value (js ''false'') (Bool False)"
  "reads_value (QuoteJSONString s) (Str s)"
  by (simp_all add: reads_value_def tokenize_words tokenize_QuoteJSONString step_scalar)

lemma reads_number: "canonical m e \<Longrightarrow> reads_value (Number_toString m e) (Num m e)"
  by (simp add: reads_value_def tokenize_Number_toString step_scalar)

lemma reads_empty_array: "reads_value [0x5B, 0x5D] (Arr [])"
  by (simp add: reads_value_def tokenize_marks step_scalar close_array_def)

lemma reads_array:
  assumes "reads_elements ts vs"
  shows "reads_value ([0x5B] @ join_with [0x2C] ts @ [0x5D]) (Arr vs)"
  using assms
  by (simp add: reads_value_def reads_elements_def tokenize_marks step_scalar)

lemma reads_empty_object: "reads_value [0x7B, 0x7D] (Obj [])"
  by (simp add: reads_value_def tokenize_marks step_scalar close_object_def)

lemma reads_object:
  assumes "reads_properties ts ps" and "distinct (map fst ps)"
  shows "reads_value ([0x7B] @ join_with [0x2C] ts @ [0x7D]) (Obj ps)"
  using assms
  by (simp add: reads_value_def reads_properties_def tokenize_marks step_scalar)

lemma deliver_element: "deliver v (ArrayFrame acc # st) = (NeedNext, ArrayFrame (acc @ [v]) # st)"
  by (simp add: deliver_def)

lemma reads_last_element:
  assumes "reads_value t v"
  shows "reads_elements [t] [v]"
  using assms
  by (simp add: reads_value_def reads_elements_def number_stop_marks deliver_element tokenize_marks
      close_array_def)

lemma reads_more_elements:
  assumes "reads_value t v" and "reads_elements (u # ts) vs"
  shows "reads_elements (t # u # ts) (v # vs)"
  unfolding reads_elements_def
proof (intro allI impI)
  fix m :: mode and acc st r
  assume m: "m = NeedValue \<or> m = NeedFirst"
  have "foldl step (m, ArrayFrame acc # st)
          (tokenize (join_with [0x2C] (t # u # ts) @ 0x5D # r))
      = foldl step (m, ArrayFrame acc # st)
          (tokenize (t @ 0x2C # join_with [0x2C] (u # ts) @ 0x5D # r))"
    by simp
  also have "\<dots> = foldl step (deliver v (ArrayFrame acc # st))
          (tokenize (0x2C # join_with [0x2C] (u # ts) @ 0x5D # r))"
    by (rule reads_valueD [OF assms(1) m number_stop_marks(3)])
  also have "\<dots> = foldl step (NeedValue, ArrayFrame (acc @ [v]) # st)
          (tokenize (join_with [0x2C] (u # ts) @ 0x5D # r))"
    by (simp add: deliver_element tokenize_marks)
  also from assms(2) have "\<dots> = foldl step (deliver (Arr ((acc @ [v]) @ vs)) st) (tokenize r)"
    unfolding reads_elements_def by blast
  finally show "foldl step (m, ArrayFrame acc # st)
          (tokenize (join_with [0x2C] (t # u # ts) @ 0x5D # r))
      = foldl step (deliver (Arr (acc @ v # vs)) st) (tokenize r)"
    by simp
qed


lemma update_fresh: "k \<notin> fst ` set acc \<Longrightarrow> AList.update k v acc = acc @ [(k, v)]"
  by (induction acc) auto

lemma step_key:
  assumes "m = NeedKey \<or> m = NeedFirstKey"
  shows "step (m, ObjectFrame acc # st) (TString k) = (NeedColon, PropertyFrame acc k # st)"
  using assms by (auto simp: begin_key_def)

lemma reads_property_value:
  assumes t: "reads_value t v" and m: "m = NeedKey \<or> m = NeedFirstKey"
    and k: "k \<notin> fst ` set acc" and r: "number_stop r"
  shows "foldl step (m, ObjectFrame acc # st) (tokenize ((QuoteJSONString k @ [0x3A] @ t) @ r))
     = foldl step (NeedNext, ObjectFrame (acc @ [(k, v)]) # st) (tokenize r)"
proof -
  have "foldl step (m, ObjectFrame acc # st) (tokenize ((QuoteJSONString k @ [0x3A] @ t) @ r))
      = foldl step (NeedValue, PropertyFrame acc k # st) (tokenize (t @ r))"
    by (simp add: tokenize_QuoteJSONString tokenize_marks step_key [OF m])
  also have "\<dots> = foldl step (deliver v (PropertyFrame acc k # st)) (tokenize r)"
    by (rule reads_valueD [OF t _ r]) simp
  also have "deliver v (PropertyFrame acc k # st) = (NeedNext, ObjectFrame (acc @ [(k, v)]) # st)"
    by (simp add: deliver_def update_fresh [OF k])
  finally show ?thesis .
qed

lemma reads_last_property:
  assumes "reads_value t v"
  shows "reads_properties [QuoteJSONString k @ [0x3A] @ t] [(k, v)]"
  unfolding reads_properties_def
proof (intro allI impI)
  fix m :: mode and acc st r
  assume m: "m = NeedKey \<or> m = NeedFirstKey" and d: "distinct (map fst (acc @ [(k, v)]))"
  from d have k: "k \<notin> fst ` set acc"
    by auto
  have "foldl step (m, ObjectFrame acc # st)
          (tokenize (join_with [0x2C] [QuoteJSONString k @ [0x3A] @ t] @ 0x7D # r))
      = foldl step (m, ObjectFrame acc # st)
          (tokenize ((QuoteJSONString k @ [0x3A] @ t) @ 0x7D # r))"
    by simp
  also have "\<dots> = foldl step (NeedNext, ObjectFrame (acc @ [(k, v)]) # st) (tokenize (0x7D # r))"
    by (rule reads_property_value [OF assms m k number_stop_marks(2)])
  also have "\<dots> = foldl step (deliver (Obj (acc @ [(k, v)])) st) (tokenize r)"
    by (simp add: tokenize_marks close_object_def)
  finally show "foldl step (m, ObjectFrame acc # st)
          (tokenize (join_with [0x2C] [QuoteJSONString k @ [0x3A] @ t] @ 0x7D # r))
      = foldl step (deliver (Obj (acc @ [(k, v)])) st) (tokenize r)" .
qed

lemma reads_more_properties:
  assumes "reads_value t v" and "reads_properties (u # ts) ps"
  shows "reads_properties ((QuoteJSONString k @ [0x3A] @ t) # u # ts) ((k, v) # ps)"
  unfolding reads_properties_def
proof (intro allI impI)
  fix m :: mode and acc st r
  assume m: "m = NeedKey \<or> m = NeedFirstKey" and d: "distinct (map fst (acc @ (k, v) # ps))"
  from d have k: "k \<notin> fst ` set acc"
    by auto
  from d have d': "distinct (map fst ((acc @ [(k, v)]) @ ps))"
    by simp
  have "foldl step (m, ObjectFrame acc # st)
          (tokenize (join_with [0x2C] ((QuoteJSONString k @ [0x3A] @ t) # u # ts) @ 0x7D # r))
      = foldl step (m, ObjectFrame acc # st)
          (tokenize ((QuoteJSONString k @ [0x3A] @ t) @ 0x2C # join_with [0x2C] (u # ts) @ 0x7D # r))"
    by simp
  also have "\<dots> = foldl step (NeedNext, ObjectFrame (acc @ [(k, v)]) # st)
          (tokenize (0x2C # join_with [0x2C] (u # ts) @ 0x7D # r))"
    by (rule reads_property_value [OF assms(1) m k number_stop_marks(3)])
  also have "\<dots> = foldl step (NeedKey, ObjectFrame (acc @ [(k, v)]) # st)
          (tokenize (join_with [0x2C] (u # ts) @ 0x7D # r))"
    by (simp add: tokenize_marks)
  also from assms(2) d' have "\<dots> = foldl step (deliver (Obj ((acc @ [(k, v)]) @ ps)) st) (tokenize r)"
    unfolding reads_properties_def by blast
  finally show "foldl step (m, ObjectFrame acc # st)
          (tokenize (join_with [0x2C] ((QuoteJSONString k @ [0x3A] @ t) # u # ts) @ 0x7D # r))
      = foldl step (deliver (Obj (acc @ (k, v) # ps)) st) (tokenize r)"
    by simp
qed

lemma serialize_reads:
  "json_value v \<Longrightarrow> \<exists>t. SerializeJSONProperty v = Inr (Some t) \<and> reads_value t v"
  "json_values vs \<Longrightarrow>
     \<exists>ts. SerializeJSONArray vs = Inr ts \<and> length ts = length vs
       \<and> (vs \<noteq> [] \<longrightarrow> reads_elements ts vs)"
  "json_properties ps \<Longrightarrow>
     \<exists>ts. SerializeJSONObject ps = Inr ts \<and> length ts = length ps
       \<and> (ps \<noteq> [] \<longrightarrow> reads_properties ts ps)"
proof (induction v and vs and ps rule: json_value_json_values_json_properties.induct)
  case (7 vs)
  then obtain ts where ts: "SerializeJSONArray vs = Inr ts" "length ts = length vs"
    "vs \<noteq> [] \<longrightarrow> reads_elements ts vs"
    by auto
  show ?case
  proof (cases "vs = []")
    case True
    with ts show ?thesis
      using reads_empty_array by (simp add: js_punct)
  next
    case False
    with ts reads_array [of ts vs] show ?thesis
      by (simp add: js_punct)
  qed
next
  case (8 ps)
  then obtain ts where ts: "SerializeJSONObject ps = Inr ts" "length ts = length ps"
    "ps \<noteq> [] \<longrightarrow> reads_properties ts ps"
    by auto
  show ?case
  proof (cases "ps = []")
    case True
    with ts show ?thesis
      using reads_empty_object by (simp add: js_punct)
  next
    case False
    with ts 8(2) reads_object [of ts ps] show ?thesis
      by (simp add: js_punct)
  qed
next
  case (10 v vs)
  then obtain t ts where t: "SerializeJSONProperty v = Inr (Some t)" "reads_value t v"
    and ts: "SerializeJSONArray vs = Inr ts" "length ts = length vs"
    "vs \<noteq> [] \<longrightarrow> reads_elements ts vs"
    by auto
  have "reads_elements (t # ts) (v # vs)"
  proof (cases ts)
    case Nil
    with ts(2) t(2) show ?thesis
      by (simp add: reads_last_element)
  next
    case (Cons u us)
    with ts(2,3) t(2) show ?thesis
      by (auto intro: reads_more_elements)
  qed
  with t ts show ?case
    by simp
next
  case (12 kv ps)
  then obtain t ts where t: "SerializeJSONProperty (snd kv) = Inr (Some t)" "reads_value t (snd kv)"
    and ts: "SerializeJSONObject ps = Inr ts" "length ts = length ps"
    "ps \<noteq> [] \<longrightarrow> reads_properties ts ps"
    by auto
  have "reads_properties ((QuoteJSONString (fst kv) @ [0x3A] @ t) # ts) ((fst kv, snd kv) # ps)"
  proof (cases ts)
    case Nil
    with ts(2) reads_last_property [OF t(2), of "fst kv"] show ?thesis
      by simp
  next
    case (Cons u us)
    with ts(2,3) have "reads_properties (u # us) ps"
      by auto
    from reads_more_properties [OF t(2) this, of "fst kv"] Cons show ?thesis
      by simp
  qed
  with t ts show ?case
    by (simp add: js_punct)
qed (simp_all add: reads_scalars reads_number)

lemma JSON_parse_reads:
  assumes "reads_value t v"
  shows "JSON_parse (Str t) = Inr v"
proof -
  have "foldl step (NeedValue, []) (tokenize (t @ [])) = foldl step (deliver v []) (tokenize [])"
    by (rule reads_valueD [OF assms _ number_stop_Nil]) simp
  then show ?thesis
    by (simp add: JSON_parse_def deliver_def tokenize.simps)
qed

lemma stringify_parse:
  assumes "json_value v"
  shows "\<exists>t. JSON_stringify v = Inr (Str t) \<and> JSON_parse (Str t) = Inr v"
  using serialize_reads(1) [OF assms] JSON_parse_reads
  by (auto simp: JSON_stringify_def)

section \<open>What the host store answers after a call of the adapter\<close>

lemma JSON_parse_Null: "JSON_parse Null = Inr Null"
  by code_simp

lemma JSON_parse_empty: "JSON_parse (Str []) = Inl SyntaxError"
  by code_simp

lemma JSON_parse_true: "JSON_parse (Str (js ''true'')) = Inr (Bool True)"
  by code_simp

lemma JSON_parse_42: "JSON_parse (Str (js ''42'')) = Inr (Num 42 0)"
  by code_simp

lemma ToString_42: "ToString (Num 42 0) = js ''42''"
  by code_simp

lemma map_of_update_same: "map_of (AList.update k v es) k = Some v"
  by (simp add: update_conv')

lemma map_of_delete_same: "map_of (AList.delete k es) k = None"
  by (simp add: delete_conv')

lemma set_resolved:
  assumes "set' this k v w = (Resolved u, w')"
  shows "\<exists>cv st. testForArray this v = Inr cv \<and> localStorage w' = Inr st
           \<and> map_of (entries st) k = Some (ToString cv)"
  using assms
  by (auto simp: set'_def setItem_def Storage_setItem_def localStorage_def Let_def
      map_of_update_same split: sum.splits option.splits prod.splits if_splits)

lemma remove_resolved:
  assumes "remove this k w = (Resolved u, w')"
  shows "\<exists>st. localStorage w' = Inr st \<and> map_of (entries st) k = None"
  using assms
  by (auto simp: remove_def removeItem_def Storage_removeItem_def localStorage_def
      map_of_delete_same split: sum.splits option.splits)

lemma clear_resolved:
  assumes "clear this w = (Resolved u, w')"
  shows "\<exists>st. localStorage w' = Inr st \<and> map_of (entries st) k = None"
  using assms
  by (auto simp: clear_def clearItems_def Storage_clear_def localStorage_def
      split: sum.splits option.splits)

lemma get_present:
  assumes "localStorage w = Inr st" and "map_of (entries st) k = Some s"
  shows "get this k w =
           (case JSON_parse (Str s) of
              Inr p \<Rightarrow> (Resolved p, w)
            | Inl err \<Rightarrow> (Resolved (Str s), w))"
  using assms
  by (simp add: get_def getItem_def Storage_getItem_def testParse_def split: sum.splits)

lemma get_absent:
  assumes "localStorage w = Inr st" and "map_of (entries st) k = None"
  shows "get this k w = (Resolved Null, w)"
  using assms
  by (simp add: get_def getItem_def Storage_getItem_def testParse_def JSON_parse_Null)

lemma setItem_raise_unchanged:
  "fst (setItem w k cv) = Inl e \<Longrightarrow> snd (setItem w k cv) = w"
  by (auto simp: setItem_def Storage_setItem_def Let_def localStorage_def
      split: sum.splits option.splits if_splits)

section \<open>The claims of the specification\<close>

text \<open>
  C1. For every key \<open>k\<close> and every array \<open>v\<close> of the JSON data model, a \<^verbatim>\<open>set(k, v)\<close> that
  the host accepts, followed by \<^verbatim>\<open>get(k)\<close>, resolves with \<open>v\<close>: the array is written as
  its JSON text by \<^verbatim>\<open>testForArray\<close> and read back from it by \<^verbatim>\<open>testParse\<close>.
\<close>

theorem array_round_trip:
  assumes "isArray v" and "json_value v"
    and "set' this k v w = (Resolved u, w')"
  shows "get this k w' = (Resolved v, w')"
proof -
  from stringify_parse [OF assms(2)] obtain t where
    t: "JSON_stringify v = Inr (Str t)" and p: "JSON_parse (Str t) = Inr v"
    by blast
  from set_resolved [OF assms(3)] obtain cv st where
    cv: "testForArray this v = Inr cv" and st: "localStorage w' = Inr st"
    and m: "map_of (entries st) k = Some (ToString cv)"
    by blast
  from cv t assms(1) have "cv = Str t"
    by (simp add: testForArray_def)
  with m have "map_of (entries st) k = Some t"
    by simp
  from get_present [OF st this] p show ?thesis
    by simp
qed

theorem array_round_trip_witness:
  "isArray (Arr [Num 1 0, Bool True, Arr [Null, Num 25 (- 1)]])
   \<and> json_value (Arr [Num 1 0, Bool True, Arr [Null, Num 25 (- 1)]])
   \<and> set' (LocalStorage ()) (js ''k'') (Arr [Num 1 0, Bool True, Arr [Null, Num 25 (- 1)]])
        \<lparr>refusal = None, area = \<lparr>entries = [], quota = 100\<rparr>\<rparr>
      = (Resolved Undefined,
         \<lparr>refusal = None,
            area = \<lparr>entries = [(js ''k'', js ''[1,true,[null,2.5]]'')], quota = 100\<rparr>\<rparr>)
   \<and> get (LocalStorage ()) (js ''k'')
        \<lparr>refusal = None,
           area = \<lparr>entries = [(js ''k'', js ''[1,true,[null,2.5]]'')], quota = 100\<rparr>\<rparr>
      = (Resolved (Arr [Num 1 0, Bool True, Arr [Null, Num 25 (- 1)]]),
         \<lparr>refusal = None,
            area = \<lparr>entries = [(js ''k'', js ''[1,true,[null,2.5]]'')], quota = 100\<rparr>\<rparr>)"
proof -
  have a: "isArray (Arr [Num 1 0, Bool True, Arr [Null, Num 25 (- 1)]])"
    by code_simp
  have b: "json_value (Arr [Num 1 0, Bool True, Arr [Null, Num 25 (- 1)]])"
    by code_simp
  have c: "set' (LocalStorage ()) (js ''k'') (Arr [Num 1 0, Bool True, Arr [Null, Num 25 (- 1)]])
        \<lparr>refusal = None, area = \<lparr>entries = [], quota = 100\<rparr>\<rparr>
      = (Resolved Undefined,
         \<lparr>refusal = None,
            area = \<lparr>entries = [(js ''k'', js ''[1,true,[null,2.5]]'')], quota = 100\<rparr>\<rparr>)"
    by code_simp
  show ?thesis
    by (intro conjI a b c array_round_trip [OF a b c])
qed

text \<open>
  The data model is the limit of C1: an \<^verbatim>\<open>undefined\<close> element is written as \<^verbatim>\<open>null\<close> and
  comes back as \<^verbatim>\<open>null\<close>.
\<close>

lemma undefined_element_comes_back_null:
  "get (LocalStorage ()) (js ''k'')
     (snd (set' (LocalStorage ()) (js ''k'') (Arr [Undefined])
        \<lparr>refusal = None, area = \<lparr>entries = [], quota = 100\<rparr>\<rparr>))
   = (Resolved (Arr [Null]),
      \<lparr>refusal = None, area = \<lparr>entries = [(js ''k'', js ''[null]'')], quota = 100\<rparr>\<rparr>)"
  by code_simp

text \<open>
  C2. For every key \<open>k\<close> and every string \<open>s\<close> that \<^verbatim>\<open>JSON.parse\<close> refuses, a \<^verbatim>\<open>set(k, s)\<close>
  that the host accepts, followed by \<^verbatim>\<open>get(k)\<close>, resolves with exactly \<open>s\<close>.
\<close>

theorem plain_string_round_trip:
  assumes "JSON_parse (Str s) = Inl err"
    and "set' this k (Str s) w = (Resolved u, w')"
  shows "get this k w' = (Resolved (Str s), w')"
proof -
  from set_resolved [OF assms(2)] obtain cv st where
    cv: "testForArray this (Str s) = Inr cv" and st: "localStorage w' = Inr st"
    and m: "map_of (entries st) k = Some (ToString cv)"
    by blast
  from cv have "cv = Str s"
    by (simp add: testForArray_def isArray_def)
  with m have "map_of (entries st) k = Some s"
    by simp
  from get_present [OF st this] assms(1) show ?thesis
    by simp
qed

theorem plain_string_round_trip_witness:
  "JSON_parse (Str (js ''hello'')) = Inl SyntaxError
   \<and> set' (LocalStorage ()) (js ''k'') (Str (js ''hello''))
        \<lparr>refusal = None, area = \<lparr>entries = [], quota = 100\<rparr>\<rparr>
      = (Resolved Undefined,
         \<lparr>refusal = None, area = \<lparr>entries = [(js ''k'', js ''hello'')], quota = 100\<rparr>\<rparr>)
   \<and> get (LocalStorage ()) (js ''k'')
        \<lparr>refusal = None, area = \<lparr>entries = [(js ''k'', js ''hello'')], quota = 100\<rparr>\<rparr>
      = (Resolved (Str (js ''hello'')),
         \<lparr>refusal = None, area = \<lparr>entries = [(js ''k'', js ''hello'')], quota = 100\<rparr>\<rparr>)"
proof -
  have p: "JSON_parse (Str (js ''hello'')) = Inl SyntaxError"
    by code_simp
  have s: "set' (LocalStorage ()) (js ''k'') (Str (js ''hello''))
        \<lparr>refusal = None, area = \<lparr>entries = [], quota = 100\<rparr>\<rparr>
      = (Resolved Undefined,
         \<lparr>refusal = None, area = \<lparr>entries = [(js ''k'', js ''hello'')], quota = 100\<rparr>\<rparr>)"
    by code_simp
  from p s plain_string_round_trip [OF p s] show ?thesis
    by simp
qed

text \<open>
  C3. \<^verbatim>\<open>testParse\<close> returns for every input, a string or the \<^verbatim>\<open>null\<close> of a missing key: the
  value \<^verbatim>\<open>JSON.parse\<close> decodes when it decodes one, the input itself when \<^verbatim>\<open>JSON.parse\<close>
  raises. It never raises.
\<close>

theorem testParse_total:
  "(\<exists>r. testParse this v = Inr r)
   \<and> (\<forall>p. JSON_parse v = Inr p \<longrightarrow> testParse this v = Inr p)
   \<and> (\<forall>err. JSON_parse v = Inl err \<longrightarrow> testParse this v = Inr v)"
  by (simp add: testParse_def split: sum.splits)

theorem testParse_total_witness:
  "testParse (LocalStorage ()) (Str (js ''[1]'')) = Inr (Arr [Num 1 0])
   \<and> testParse (LocalStorage ()) (Str (js ''hello'')) = Inr (Str (js ''hello''))
   \<and> testParse (LocalStorage ()) Null = Inr Null"
proof -
  have a: "JSON_parse (Str (js ''[1]'')) = Inr (Arr [Num 1 0])"
    by code_simp
  have b: "JSON_parse (Str (js ''hello'')) = Inl SyntaxError"
    by code_simp
  from a b JSON_parse_Null
    testParse_total [of "LocalStorage ()" "Str (js ''[1]'')"]
    testParse_total [of "LocalStorage ()" "Str (js ''hello'')"]
    testParse_total [of "LocalStorage ()" Null]
  show ?thesis
    by blast
qed

text \<open>
  C4. For an array, \<^verbatim>\<open>testForArray\<close> is \<^verbatim>\<open>JSON.stringify\<close>: what it returns is the JSON
  text of the array, a string (and it raises when \<^verbatim>\<open>JSON.stringify\<close> raises); for an
  array of the JSON data model it does return. For every other argument it returns the
  argument itself, which is never the JSON text of that argument.
\<close>

theorem testForArray_encodes_arrays_only:
  "(isArray v \<longrightarrow>
      testForArray this v = JSON_stringify v
      \<and> (\<forall>r. testForArray this v = Inr r \<longrightarrow>
            (\<exists>t. r = Str t \<and> SerializeJSONProperty v = Inr (Some t)))
      \<and> (json_value v \<longrightarrow> (\<exists>t. testForArray this v = Inr (Str t))))
   \<and> (\<not> isArray v \<longrightarrow>
      testForArray this v = Inr v
      \<and> (\<forall>t. JSON_stringify v = Inr (Str t) \<longrightarrow> v \<noteq> Str t))"
proof (intro conjI impI allI)
  assume "isArray v"
  then show "testForArray this v = JSON_stringify v"
    by (simp add: testForArray_def)
next
  fix r
  assume "isArray v" and "testForArray this v = Inr r"
  then show "\<exists>t. r = Str t \<and> SerializeJSONProperty v = Inr (Some t)"
    by (cases v)
       (auto simp: testForArray_def isArray_def JSON_stringify_def split: sum.splits)
next
  assume "isArray v" and "json_value v"
  with stringify_parse [of v] show "\<exists>t. testForArray this v = Inr (Str t)"
    by (auto simp: testForArray_def)
next
  assume "\<not> isArray v"
  then show "testForArray this v = Inr v"
    by (simp add: testForArray_def)
next
  fix t
  assume "\<not> isArray v" and "JSON_stringify v = Inr (Str t)"
  then show "v \<noteq> Str t"
    using QuoteJSONString_neq [of t]
    by (cases v) (auto simp: JSON_stringify_def)
qed

theorem testForArray_encodes_arrays_only_witness:
  "testForArray (LocalStorage ()) (Arr [Num 1 0, Num 2 0, Num 3 0]) = Inr (Str (js ''[1,2,3]''))
   \<and> JSON_stringify (Arr [Num 1 0, Num 2 0, Num 3 0]) = Inr (Str (js ''[1,2,3]''))
   \<and> testForArray (LocalStorage ()) (Num 42 0) = Inr (Num 42 0)
   \<and> testForArray (LocalStorage ()) (Obj [(js ''a'', Null)]) = Inr (Obj [(js ''a'', Null)])
   \<and> testForArray (LocalStorage ()) Undefined = Inr Undefined"
proof -
  have a: "isArray (Arr [Num 1 0, Num 2 0, Num 3 0])"
    by code_simp
  have b: "JSON_stringify (Arr [Num 1 0, Num 2 0, Num 3 0]) = Inr (Str (js ''[1,2,3]''))"
    by code_simp
  have c: "\<not> isArray (Num 42 0)" "\<not> isArray (Obj [(js ''a'', Null)])" "\<not> isArray Undefined"
    by (simp_all add: isArray_def)
  from a b c
    testForArray_encodes_arrays_only [of "Arr [Num 1 0, Num 2 0, Num 3 0]" "LocalStorage ()"]
    testForArray_encodes_arrays_only [of "Num 42 0" "LocalStorage ()"]
    testForArray_encodes_arrays_only [of "Obj [(js ''a'', Null)]" "LocalStorage ()"]
    testForArray_encodes_arrays_only [of Undefined "LocalStorage ()"]
  show ?thesis
    by simp
qed

text \<open>
  C5. After a \<^verbatim>\<open>remove(k)\<close> that resolves, \<^verbatim>\<open>get(k)\<close> resolves with \<^verbatim>\<open>null\<close>, the answer of the
  host for a missing key; after a \<^verbatim>\<open>clear()\<close> that resolves, \<^verbatim>\<open>get(k)\<close> resolves with
  \<^verbatim>\<open>null\<close> for every key. \<^verbatim>\<open>testParse\<close> reads the \<^verbatim>\<open>null\<close> as the text \<^verbatim>\<open>null\<close> and decodes
  it to \<^verbatim>\<open>null\<close>; the promise is not rejected.
\<close>

theorem get_after_remove_or_clear:
  "(remove this k w = (Resolved u, w') \<longrightarrow> get this k w' = (Resolved Null, w'))
   \<and> (clear this w = (Resolved u, w') \<longrightarrow> get this k w' = (Resolved Null, w'))"
  by (blast dest: remove_resolved clear_resolved intro: get_absent)

theorem get_after_remove_or_clear_witness:
  "remove (LocalStorage ()) (js ''k'')
        \<lparr>refusal = None, area = \<lparr>entries = [(js ''k'', js ''[1]'')], quota = 100\<rparr>\<rparr>
      = (Resolved Undefined, \<lparr>refusal = None, area = \<lparr>entries = [], quota = 100\<rparr>\<rparr>)
   \<and> clear (LocalStorage ())
        \<lparr>refusal = None, area = \<lparr>entries = [(js ''k'', js ''[1]'')], quota = 100\<rparr>\<rparr>
      = (Resolved Undefined, \<lparr>refusal = None, area = \<lparr>entries = [], quota = 100\<rparr>\<rparr>)
   \<and> get (LocalStorage ()) (js ''k'') \<lparr>refusal = None, area = \<lparr>entries = [], quota = 100\<rparr>\<rparr>
      = (Resolved Null, \<lparr>refusal = None, area = \<lparr>entries = [], quota = 100\<rparr>\<rparr>)"
proof -
  have r: "remove (LocalStorage ()) (js ''k'')
        \<lparr>refusal = None, area = \<lparr>entries = [(js ''k'', js ''[1]'')], quota = 100\<rparr>\<rparr>
      = (Resolved Undefined, \<lparr>refusal = None, area = \<lparr>entries = [], quota = 100\<rparr>\<rparr>)"
    by code_simp
  have c: "clear (LocalStorage ())
        \<lparr>refusal = None, area = \<lparr>entries = [(js ''k'', js ''[1]'')], quota = 100\<rparr>\<rparr>
      = (Resolved Undefined, \<lparr>refusal = None, area = \<lparr>entries = [], quota = 100\<rparr>\<rparr>)"
    by code_simp
  from r c get_after_remove_or_clear
    [of "LocalStorage ()" "js ''k''"
        "\<lparr>refusal = None, area = \<lparr>entries = [(js ''k'', js ''[1]'')], quota = 100\<rparr>\<rparr>"
        Undefined "\<lparr>refusal = None, area = \<lparr>entries = [], quota = 100\<rparr>\<rparr>"]
  show ?thesis
    by simp
qed

text \<open>
  C6. After a \<^verbatim>\<open>set(k, "true")\<close> that resolves, \<^verbatim>\<open>get(k)\<close> resolves with the boolean
  \<^verbatim>\<open>true\<close>, not the string; after a \<^verbatim>\<open>set("count", 42)\<close> that resolves, the host holds the
  string \<^verbatim>\<open>42\<close> and \<^verbatim>\<open>get("count")\<close> resolves with the number 42.
\<close>

theorem parse_on_read_collision:
  "(set' this k (Str (js ''true'')) w = (Resolved u, w')
      \<longrightarrow> get this k w' = (Resolved (Bool True), w'))
   \<and> (set' this (js ''count'') (Num 42 0) w = (Resolved u, w')
      \<longrightarrow> fst (getItem w' (js ''count'')) = Inr (Str (js ''42''))
        \<and> get this (js ''count'') w' = (Resolved (Num 42 0), w'))"
proof (intro conjI impI)
  assume a: "set' this k (Str (js ''true'')) w = (Resolved u, w')"
  from set_resolved [OF a] obtain cv st where
    cv: "testForArray this (Str (js ''true'')) = Inr cv" and st: "localStorage w' = Inr st"
    and m: "map_of (entries st) k = Some (ToString cv)"
    by blast
  from cv m have "map_of (entries st) k = Some (js ''true'')"
    by (auto simp: testForArray_def isArray_def)
  from get_present [OF st this] show "get this k w' = (Resolved (Bool True), w')"
    by (simp add: JSON_parse_true)
next
  assume a: "set' this (js ''count'') (Num 42 0) w = (Resolved u, w')"
  from set_resolved [OF a] obtain cv st where
    cv: "testForArray this (Num 42 0) = Inr cv" and st: "localStorage w' = Inr st"
    and m: "map_of (entries st) (js ''count'') = Some (ToString cv)"
    by blast
  from cv have "cv = Num 42 0"
    by (simp add: testForArray_def isArray_def)
  with m have m': "map_of (entries st) (js ''count'') = Some (js ''42'')"
    by (simp only: ToString_42)
  from st m' show "fst (getItem w' (js ''count'')) = Inr (Str (js ''42''))"
    by (simp add: getItem_def Storage_getItem_def)
  from get_present [OF st m'] show "get this (js ''count'') w' = (Resolved (Num 42 0), w')"
    by (simp add: JSON_parse_42)
qed

theorem parse_on_read_collision_witness:
  "set' (LocalStorage ()) (js ''count'') (Str (js ''true''))
        \<lparr>refusal = None, area = \<lparr>entries = [], quota = 100\<rparr>\<rparr>
      = (Resolved Undefined,
         \<lparr>refusal = None, area = \<lparr>entries = [(js ''count'', js ''true'')], quota = 100\<rparr>\<rparr>)
   \<and> get (LocalStorage ()) (js ''count'')
        \<lparr>refusal = None, area = \<lparr>entries = [(js ''count'', js ''true'')], quota = 100\<rparr>\<rparr>
      = (Resolved (Bool True),
         \<lparr>refusal = None, area = \<lparr>entries = [(js ''count'', js ''true'')], quota = 100\<rparr>\<rparr>)
   \<and> set' (LocalStorage ()) (js ''count'') (Num 42 0)
        \<lparr>refusal = None, area = \<lparr>entries = [], quota = 100\<rparr>\<rparr>
      = (Resolved Undefined,
         \<lparr>refusal = None, area = \<lparr>entries = [(js ''count'', js ''42'')], quota = 100\<rparr>\<rparr>)
   \<and> get (LocalStorage ()) (js ''count'')
        \<lparr>refusal = None, area = \<lparr>entries = [(js ''count'', js ''42'')], quota = 100\<rparr>\<rparr>
      = (Resolved (Num 42 0),
         \<lparr>refusal = None, area = \<lparr>entries = [(js ''count'', js ''42'')], quota = 100\<rparr>\<rparr>)"
proof -
  have a: "set' (LocalStorage ()) (js ''count'') (Str (js ''true''))
        \<lparr>refusal = None, area = \<lparr>entries = [], quota = 100\<rparr>\<rparr>
      = (Resolved Undefined,
         \<lparr>refusal = None, area = \<lparr>entries = [(js ''count'', js ''true'')], quota = 100\<rparr>\<rparr>)"
    by code_simp
  have b: "set' (LocalStorage ()) (js ''count'') (Num 42 0)
        \<lparr>refusal = None, area = \<lparr>entries = [], quota = 100\<rparr>\<rparr>
      = (Resolved Undefined,
         \<lparr>refusal = None, area = \<lparr>entries = [(js ''count'', js ''42'')], quota = 100\<rparr>\<rparr>)"
    by code_simp
  from a b
    parse_on_read_collision
      [of "LocalStorage ()" "js ''count''"
          "\<lparr>refusal = None, area = \<lparr>entries = [], quota = 100\<rparr>\<rparr>" Undefined
          "\<lparr>refusal = None, area = \<lparr>entries = [(js ''count'', js ''true'')], quota = 100\<rparr>\<rparr>"]
    parse_on_read_collision
      [of "LocalStorage ()" "js ''count''"
          "\<lparr>refusal = None, area = \<lparr>entries = [], quota = 100\<rparr>\<rparr>" Undefined
          "\<lparr>refusal = None, area = \<lparr>entries = [(js ''count'', js ''42'')], quota = 100\<rparr>\<rparr>"]
  show ?thesis
    by simp
qed

text \<open>
  C7, as the code has it. For \<^verbatim>\<open>get\<close>, \<^verbatim>\<open>remove\<close> and \<^verbatim>\<open>clear\<close> the promise is rejected
  exactly when the host call raises, with the error raised, and resolves otherwise. For
  \<^verbatim>\<open>set\<close> the promise is rejected exactly when \<^verbatim>\<open>testForArray\<close> raises (no host call is
  made then) or the host call raises, with the error raised, and resolves otherwise.
\<close>

theorem settle_iff_raise:
  "(fst (get this k w) = Rejected e \<longleftrightarrow> fst (getItem w k) = Inl e)
   \<and> ((\<exists>r. fst (get this k w) = Resolved r) \<longleftrightarrow> (\<exists>r. fst (getItem w k) = Inr r))
   \<and> (fst (set' this k v w) = Rejected e \<longleftrightarrow>
        testForArray this v = Inl e
        \<or> (\<exists>cv. testForArray this v = Inr cv \<and> fst (setItem w k cv) = Inl e))
   \<and> ((\<exists>r. fst (set' this k v w) = Resolved r) \<longleftrightarrow>
        (\<exists>cv. testForArray this v = Inr cv \<and> fst (setItem w k cv) = Inr ()))
   \<and> (fst (remove this k w) = Rejected e \<longleftrightarrow> fst (removeItem w k) = Inl e)
   \<and> ((\<exists>r. fst (remove this k w) = Resolved r) \<longleftrightarrow> fst (removeItem w k) = Inr ())
   \<and> (fst (clear this w) = Rejected e \<longleftrightarrow> fst (clearItems w) = Inl e)
   \<and> ((\<exists>r. fst (clear this w) = Resolved r) \<longleftrightarrow> fst (clearItems w) = Inr ())"
proof (intro conjI)
  show "fst (get this k w) = Rejected e \<longleftrightarrow> fst (getItem w k) = Inl e"
    by (auto simp: get_def testParse_def split: prod.splits sum.splits)
  show "(\<exists>r. fst (get this k w) = Resolved r) \<longleftrightarrow> (\<exists>r. fst (getItem w k) = Inr r)"
    by (auto simp: get_def testParse_def split: prod.splits sum.splits)
  show "fst (set' this k v w) = Rejected e \<longleftrightarrow>
        testForArray this v = Inl e
        \<or> (\<exists>cv. testForArray this v = Inr cv \<and> fst (setItem w k cv) = Inl e)"
    by (auto simp: set'_def split: prod.splits sum.splits)
  show "(\<exists>r. fst (set' this k v w) = Resolved r) \<longleftrightarrow>
        (\<exists>cv. testForArray this v = Inr cv \<and> fst (setItem w k cv) = Inr ())"
    by (auto simp: set'_def split: prod.splits sum.splits)
  show "fst (remove this k w) = Rejected e \<longleftrightarrow> fst (removeItem w k) = Inl e"
    by (auto simp: remove_def split: prod.splits sum.splits)
  show "(\<exists>r. fst (remove this k w) = Resolved r) \<longleftrightarrow> fst (removeItem w k) = Inr ()"
    by (auto simp: remove_def split: prod.splits sum.splits)
  show "fst (clear this w) = Rejected e \<longleftrightarrow> fst (clearItems w) = Inl e"
    by (auto simp: clear_def split: prod.splits sum.splits)
  show "(\<exists>r. fst (clear this w) = Resolved r) \<longleftrightarrow> fst (clearItems w) = Inr ()"
    by (auto simp: clear_def split: prod.splits sum.splits)
qed

theorem settle_iff_raise_witness:
  "fst (getItem \<lparr>refusal = Some SecurityError, area = \<lparr>entries = [], quota = 100\<rparr>\<rparr> (js ''k''))
      = Inl SecurityError
   \<and> fst (get (LocalStorage ()) (js ''k'')
        \<lparr>refusal = Some SecurityError, area = \<lparr>entries = [], quota = 100\<rparr>\<rparr>)
      = Rejected SecurityError
   \<and> testForArray (LocalStorage ()) (Str (js ''hello'')) = Inr (Str (js ''hello''))
   \<and> fst (setItem \<lparr>refusal = None, area = \<lparr>entries = [], quota = 3\<rparr>\<rparr> (js ''k'')
        (Str (js ''hello''))) = Inl QuotaExceededError
   \<and> fst (set' (LocalStorage ()) (js ''k'') (Str (js ''hello''))
        \<lparr>refusal = None, area = \<lparr>entries = [], quota = 3\<rparr>\<rparr>)
      = Rejected QuotaExceededError"
proof -
  have a: "fst (getItem \<lparr>refusal = Some SecurityError, area = \<lparr>entries = [], quota = 100\<rparr>\<rparr>
        (js ''k'')) = Inl SecurityError"
    by code_simp
  have b: "testForArray (LocalStorage ()) (Str (js ''hello'')) = Inr (Str (js ''hello''))"
    by code_simp
  have c: "fst (setItem \<lparr>refusal = None, area = \<lparr>entries = [], quota = 3\<rparr>\<rparr> (js ''k'')
        (Str (js ''hello''))) = Inl QuotaExceededError"
    by code_simp
  have g: "fst (get (LocalStorage ()) (js ''k'')
        \<lparr>refusal = Some SecurityError, area = \<lparr>entries = [], quota = 100\<rparr>\<rparr>)
      = Rejected SecurityError"
    by (rule iffD2 [OF settle_iff_raise [THEN conjunct1] a])
  have s: "fst (set' (LocalStorage ()) (js ''k'') (Str (js ''hello''))
        \<lparr>refusal = None, area = \<lparr>entries = [], quota = 3\<rparr>\<rparr>)
      = Rejected QuotaExceededError"
    by (rule iffD2 [OF settle_iff_raise [THEN conjunct2, THEN conjunct2, THEN conjunct1]],
        rule disjI2, rule exI, rule conjI [OF b c])
  show ?thesis
    by (intro conjI a b c g s)
qed

text \<open>
  C7, as the specification has it, fails for \<^verbatim>\<open>set\<close>: with an array that holds a BigInt,
  \<^verbatim>\<open>JSON.stringify\<close> raises a \<^verbatim>\<open>TypeError\<close> in \<^verbatim>\<open>testForArray\<close>, before the \<^verbatim>\<open>try\<close>, and the
  promise is rejected although no host call raises: the host would have taken the value.
\<close>

theorem set_rejects_without_host_raise:
  "fst (set' (LocalStorage ()) (js ''k'') (Arr [BigInt 1])
         \<lparr>refusal = None, area = \<lparr>entries = [], quota = 100\<rparr>\<rparr>) = Rejected TypeError
   \<and> testForArray (LocalStorage ()) (Arr [BigInt 1]) = Inl TypeError
   \<and> fst (setItem \<lparr>refusal = None, area = \<lparr>entries = [], quota = 100\<rparr>\<rparr> (js ''k'')
            (Arr [BigInt 1])) = Inr ()"
  by code_simp

text \<open>
  C8. When \<^verbatim>\<open>set(k, v)\<close> is rejected, the window, and with it every entry of the host
  store, the one under \<open>k\<close> among them, is what it was before the call.
\<close>

theorem failed_set_changes_nothing:
  assumes "fst (set' this k v w) = Rejected e"
  shows "snd (set' this k v w) = w"
proof (cases "testForArray this v")
  case (Inl err)
  then show ?thesis
    by (simp add: set'_def)
next
  case (Inr cv)
  with assms have "fst (setItem w k cv) = Inl e"
    by (auto simp: set'_def split: prod.splits sum.splits)
  from setItem_raise_unchanged [OF this] Inr show ?thesis
    by (auto simp: set'_def split: prod.splits sum.splits)
qed

theorem failed_set_changes_nothing_witness:
  "fst (set' (LocalStorage ()) (js ''k'') (Str (js ''hello''))
        \<lparr>refusal = None, area = \<lparr>entries = [(js ''k'', js ''old'')], quota = 5\<rparr>\<rparr>)
      = Rejected QuotaExceededError
   \<and> snd (set' (LocalStorage ()) (js ''k'') (Str (js ''hello''))
        \<lparr>refusal = None, area = \<lparr>entries = [(js ''k'', js ''old'')], quota = 5\<rparr>\<rparr>)
      = \<lparr>refusal = None, area = \<lparr>entries = [(js ''k'', js ''old'')], quota = 5\<rparr>\<rparr>"
proof -
  have a: "fst (set' (LocalStorage ()) (js ''k'') (Str (js ''hello''))
        \<lparr>refusal = None, area = \<lparr>entries = [(js ''k'', js ''old'')], quota = 5\<rparr>\<rparr>)
      = Rejected QuotaExceededError"
    by code_simp
  from a failed_set_changes_nothing [OF a] show ?thesis
    by simp
qed

text \<open>
  C9. The options handed to the constructor have no effect: two constructions that differ
  in the options only give the same outcome, and the instances they give answer every call
  of every method alike.
\<close>

theorem options_ignored:
  "constructor super o1 = constructor super o2
   \<and> (constructor super o1 = Inr a1 \<and> constructor super o2 = Inr a2 \<longrightarrow>
        get a1 k w = get a2 k w \<and> set' a1 k v w = set' a2 k v w
        \<and> remove a1 k w = remove a2 k w \<and> clear a1 w = clear a2 w
        \<and> testParse a1 v = testParse a2 v \<and> testForArray a1 v = testForArray a2 v)"
  by (auto simp: constructor_def split: sum.splits)

theorem options_ignored_witness:
  "constructor (Inr ()) (Obj []) = Inr (LocalStorage ())
   \<and> constructor (Inr ()) (Obj [(js ''name'', Str (js ''db''))]) = Inr (LocalStorage ())
   \<and> get (LocalStorage ()) (js ''k'')
        \<lparr>refusal = None, area = \<lparr>entries = [(js ''k'', js ''[1]'')], quota = 100\<rparr>\<rparr>
      = (Resolved (Arr [Num 1 0]),
         \<lparr>refusal = None, area = \<lparr>entries = [(js ''k'', js ''[1]'')], quota = 100\<rparr>\<rparr>)"
proof -
  have a: "constructor (Inr ()) (Obj []) = Inr (LocalStorage ())"
    by code_simp
  have b: "get (LocalStorage ()) (js ''k'')
        \<lparr>refusal = None, area = \<lparr>entries = [(js ''k'', js ''[1]'')], quota = 100\<rparr>\<rparr>
      = (Resolved (Arr [Num 1 0]),
         \<lparr>refusal = None, area = \<lparr>entries = [(js ''k'', js ''[1]'')], quota = 100\<rparr>\<rparr>)"
    by code_simp
  from a b
    options_ignored
      [of "Inr ()" "Obj []" "Obj [(js ''name'', Str (js ''db''))]"
          "LocalStorage ()" "LocalStorage ()" "js ''k''"
          "\<lparr>refusal = None, area = \<lparr>entries = [(js ''k'', js ''[1]'')], quota = 100\<rparr>\<rparr>"]
  show ?thesis
    by simp
qed

text \<open>
  C10. When the host store holds the empty string under \<open>k\<close>, \<^verbatim>\<open>get(k)\<close> resolves with the
  empty string, \<^verbatim>\<open>JSON.parse\<close> raising on it; when it holds nothing under \<open>k\<close>, \<^verbatim>\<open>get(k)\<close>
  resolves with \<^verbatim>\<open>null\<close>; the two results differ.
\<close>

theorem empty_string_is_not_missing:
  assumes "localStorage w = Inr st"
  shows "(map_of (entries st) k = Some [] \<longrightarrow> get this k w = (Resolved (Str []), w))
         \<and> (map_of (entries st) k = None \<longrightarrow> get this k w = (Resolved Null, w))
         \<and> Resolved (Str []) \<noteq> Resolved Null"
  using get_present [OF assms, of k "[]" this] get_absent [OF assms, of k this]
  by (simp add: JSON_parse_empty)

theorem empty_string_is_not_missing_witness:
  "localStorage \<lparr>refusal = None, area = \<lparr>entries = [(js ''k'', [])], quota = 100\<rparr>\<rparr>
      = Inr \<lparr>entries = [(js ''k'', [])], quota = 100\<rparr>
   \<and> map_of (entries \<lparr>entries = [(js ''k'', [])], quota = 100\<rparr>) (js ''k'') = Some []
   \<and> map_of (entries \<lparr>entries = [(js ''k'', [])], quota = 100\<rparr>) (js ''j'') = None
   \<and> get (LocalStorage ()) (js ''k'')
        \<lparr>refusal = None, area = \<lparr>entries = [(js ''k'', [])], quota = 100\<rparr>\<rparr>
      = (Resolved (Str []),
         \<lparr>refusal = None, area = \<lparr>entries = [(js ''k'', [])], quota = 100\<rparr>\<rparr>)
   \<and> get (LocalStorage ()) (js ''j'')
        \<lparr>refusal = None, area = \<lparr>entries = [(js ''k'', [])], quota = 100\<rparr>\<rparr>
      = (Resolved Null,
         \<lparr>refusal = None, area = \<lparr>entries = [(js ''k'', [])], quota = 100\<rparr>\<rparr>)"
proof -
  have a: "localStorage \<lparr>refusal = None, area = \<lparr>entries = [(js ''k'', [])], quota = 100\<rparr>\<rparr>
      = Inr \<lparr>entries = [(js ''k'', [])], quota = 100\<rparr>"
    by code_simp
  have b: "map_of (entries \<lparr>entries = [(js ''k'', [])], quota = 100\<rparr>) (js ''k'') = Some []"
    by code_simp
  have c: "map_of (entries \<lparr>entries = [(js ''k'', [])], quota = 100\<rparr>) (js ''j'') = None"
    by code_simp
  from a b c
    empty_string_is_not_missing [OF a, of "js ''k''" "LocalStorage ()"]
    empty_string_is_not_missing [OF a, of "js ''j''" "LocalStorage ()"]
  show ?thesis
    by simp
qed

end
